theory Spec2Isabelle
  imports Main "HOL-Library.Word"
begin

unbundle bit_operations_syntax

section \<open>Machine types\<close>

text \<open>
  Go's \<open>byte\<close> and \<open>uint64\<close> are words of 8 and 64 bits: arithmetic wraps, \<open>byte(x)\<close>
  keeps the low eight bits (\<open>ucast\<close>). Go's \<open>int\<close> (offsets and sizes of the encoding
  buffer) is modelled as \<open>int\<close>: these values count bytes held in memory, so the 64-bit
  bound is out of reach.
\<close>

type_synonym byte = "8 word"
type_synonym uint64 = "64 word"

section \<open>Integer and header writers (rlp/encode.go)\<close>

text \<open>
  \<open>putint\<close> stores \<open>i\<close> big-endian at the start of a scratch slice with as few bytes as
  \<open>i\<close> needs and returns their number. The model returns the bytes stored; the number
  returned by the Go function is the length of that list.
\<close>

definition putint :: "uint64 \<Rightarrow> byte list" where
  "putint i =
     (if i < push_bit 8 1 then [ucast i]
      else if i < push_bit 16 1 then [ucast (drop_bit 8 i), ucast i]
      else if i < push_bit 24 1 then [ucast (drop_bit 16 i), ucast (drop_bit 8 i), ucast i]
      else if i < push_bit 32 1 then
        [ucast (drop_bit 24 i), ucast (drop_bit 16 i), ucast (drop_bit 8 i), ucast i]
      else if i < push_bit 40 1 then
        [ucast (drop_bit 32 i), ucast (drop_bit 24 i), ucast (drop_bit 16 i),
         ucast (drop_bit 8 i), ucast i]
      else if i < push_bit 48 1 then
        [ucast (drop_bit 40 i), ucast (drop_bit 32 i), ucast (drop_bit 24 i),
         ucast (drop_bit 16 i), ucast (drop_bit 8 i), ucast i]
      else if i < push_bit 56 1 then
        [ucast (drop_bit 48 i), ucast (drop_bit 40 i), ucast (drop_bit 32 i),
         ucast (drop_bit 24 i), ucast (drop_bit 16 i), ucast (drop_bit 8 i), ucast i]
      else
        [ucast (drop_bit 56 i), ucast (drop_bit 48 i), ucast (drop_bit 40 i),
         ucast (drop_bit 32 i), ucast (drop_bit 24 i), ucast (drop_bit 16 i),
         ucast (drop_bit 8 i), ucast i])"

text \<open>
  \<open>intsize\<close> counts the bytes of \<open>i\<close>: the loop shifts \<open>i\<close> right by eight bits and
  returns the counter as soon as nothing is left.
\<close>

function intsize_loop :: "int \<Rightarrow> uint64 \<Rightarrow> int" where
  "intsize_loop sz i =
     (let i' = drop_bit 8 i in if i' = 0 then sz else intsize_loop (sz + 1) i')"
  by pat_completeness auto
termination
proof (relation "measure (\<lambda>(sz, i). unat i)")
  show "wf (measure (\<lambda>(sz, i). unat i))" by simp
next
  fix sz :: int and i x :: uint64
  assume x: "x = drop_bit 8 i" and nz: "x \<noteq> 0"
  have "unat x = drop_bit 8 (unat i)"
    by (simp add: x unat_drop_bit_eq)
  then have "unat x = unat i div 256"
    by (simp add: drop_bit_eq_div)
  moreover have "unat x \<noteq> 0"
    using nz by (simp add: unat_eq_0)
  ultimately have "unat x < unat i"
    by arith
  then show "((sz + 1, x), (sz, i)) \<in> measure (\<lambda>(sz, i). unat i)"
    by simp
qed

declare intsize_loop.simps [simp del]

definition intsize :: "uint64 \<Rightarrow> int" where
  "intsize i = intsize_loop 1 i"

definition headsize :: "uint64 \<Rightarrow> int" where
  "headsize sz = (if sz < 56 then 1 else 1 + intsize sz)"

text \<open>
  \<open>puthead\<close> writes a string or list header into a scratch slice and returns its length;
  the model returns the header bytes.
\<close>

definition puthead :: "byte \<Rightarrow> byte \<Rightarrow> uint64 \<Rightarrow> byte list" where
  "puthead smalltag largetag sz =
     (if sz < 56 then [smalltag + ucast sz]
      else (let bs = putint sz in (largetag + of_nat (length bs)) # bs))"


section \<open>Types and values (package reflect, as the codec uses it)\<close>

text \<open>
  The kinds of package \<open>reflect\<close>, in the order of their declaration; \<open>kind_num\<close> is the
  number Go gives each of them, which \<open>isUint\<close> compares.
\<close>

datatype rkind =
    reflect_Invalid | reflect_Bool
  | reflect_Int | reflect_Int8 | reflect_Int16 | reflect_Int32 | reflect_Int64
  | reflect_Uint | reflect_Uint8 | reflect_Uint16 | reflect_Uint32 | reflect_Uint64
  | reflect_Uintptr
  | reflect_Float32 | reflect_Float64 | reflect_Complex64 | reflect_Complex128
  | reflect_Array | reflect_Chan | reflect_Func | reflect_Interface | reflect_Map
  | reflect_Ptr | reflect_Slice | reflect_String | reflect_Struct
  | reflect_UnsafePointer

fun kind_num :: "rkind \<Rightarrow> nat" where
  "kind_num reflect_Invalid = 0"
| "kind_num reflect_Bool = 1"
| "kind_num reflect_Int = 2"
| "kind_num reflect_Int8 = 3"
| "kind_num reflect_Int16 = 4"
| "kind_num reflect_Int32 = 5"
| "kind_num reflect_Int64 = 6"
| "kind_num reflect_Uint = 7"
| "kind_num reflect_Uint8 = 8"
| "kind_num reflect_Uint16 = 9"
| "kind_num reflect_Uint32 = 10"
| "kind_num reflect_Uint64 = 11"
| "kind_num reflect_Uintptr = 12"
| "kind_num reflect_Float32 = 13"
| "kind_num reflect_Float64 = 14"
| "kind_num reflect_Complex64 = 15"
| "kind_num reflect_Complex128 = 16"
| "kind_num reflect_Array = 17"
| "kind_num reflect_Chan = 18"
| "kind_num reflect_Func = 19"
| "kind_num reflect_Interface = 20"
| "kind_num reflect_Map = 21"
| "kind_num reflect_Ptr = 22"
| "kind_num reflect_Slice = 23"
| "kind_num reflect_String = 24"
| "kind_num reflect_Struct = 25"
| "kind_num reflect_UnsafePointer = 26"

definition isUint :: "rkind \<Rightarrow> bool" where
  "isUint k \<longleftrightarrow> kind_num reflect_Uint \<le> kind_num k \<and> kind_num k \<le> kind_num reflect_Uintptr"

text \<open>
  The types the model covers: \<open>Prim k\<close> is a type of a kind without element or field
  types (booleans, integers, strings, floats, ...), \<open>SliceOf t\<close> is \<open>[]t\<close>, and
  \<open>StructOf name fields\<close> is a struct type with its declared fields in order. A field
  is reflect's \<open>StructField\<close>: name, package path (empty for an exported field), type,
  and tag. Of the tag the model keeps the value of the key \<open>rlp\<close>, which is what
  \<open>tag.Get("rlp")\<close> hands to the codec; the tag syntax itself belongs to package reflect.
  Pointers, arrays, interfaces, big integers and types with coder methods of their own
  are outside the model, and so are recursive types: the type cache exists for them
  (it hands a placeholder to a type that meets itself), and on the types here building
  through the cache is plain recursion over the type.
\<close>

datatype rtype =
    Prim rkind
  | SliceOf rtype
  | StructOf string "sfield list"
and sfield =
    StructField (sf_Name: string) (sf_PkgPath: string) (sf_Type: rtype) (sf_Tag: string)

fun Kind_of :: "rtype \<Rightarrow> rkind" where
  "Kind_of (Prim k) = k"
| "Kind_of (SliceOf t) = reflect_Slice"
| "Kind_of (StructOf n fs) = reflect_Struct"

text \<open>\<open>typ.Bits()\<close> for the unsigned kinds (Go's \<open>uint\<close> and \<open>uintptr\<close> have 64 bits here).\<close>

fun Bits :: "rkind \<Rightarrow> nat" where
  "Bits reflect_Uint8 = 8"
| "Bits reflect_Uint16 = 16"
| "Bits reflect_Uint32 = 32"
| "Bits k = 64"

text \<open>
  Values. A string and a byte slice hold bytes; \<open>VNil\<close> is the nil slice (of bytes or of
  anything else), which Go tells apart from an empty slice; \<open>VOther\<close> stands for a value of
  a kind the codec never looks into (signed integers, floats, maps, ...).
\<close>

datatype val =
    VUint uint64
  | VBool bool
  | VString "byte list"
  | VBytes "byte list"
  | VNil
  | VSlice "val list"
  | VStruct "val list"
  | VOther

section \<open>Errors\<close>

text \<open>
  The messages of a \<open>TagError\<close>, in the order \<open>parseTag\<close> and \<open>ProcessFields\<close> produce them:
  "field is not a pointer", also has "tail" tag, "must be on last field",
  also has "optional" tag, "field type is not slice", "unknown tag", and
  must be optional because preceding field NAME is optional.
\<close>

datatype tag_msg =
    msg_not_pointer
  | msg_also_tail
  | msg_not_last
  | msg_also_optional
  | msg_not_slice
  | msg_unknown_tag
  | msg_must_be_optional string

text \<open>
  The context a decoding error collects on its way out: the index of a slice element
  (printed \<open>[i]\<close>), the name of a struct field (\<open>.Name\<close>), the target type of the call
  (\<open>(type)\<close>). The Go code appends these as strings.
\<close>

datatype ctx = ctx_index nat | ctx_field string | ctx_type rtype

text \<open>
  The error values of the package. \<open>decodeError\<close> carries message, target type and the
  context path; \<open>TagError\<close> carries struct type, field name, tag and message;
  \<open>structFieldError\<close> wraps the build error of a field's type; \<open>errNotSerializable\<close>,
  \<open>errInvalidBool\<close> and \<open>errWrongSize\<close> are the errors the code builds with \<open>fmt.Errorf\<close>;
  \<open>Panic\<close> is a run-time panic of Go (an index out of range, a reflect call on a value
  of the wrong kind); \<open>OutOfFuel\<close> belongs to the model only: the element loop of a slice
  decoder has no bound in Go, the model gives it one (see \<open>decodeSliceElems\<close>).
\<close>

datatype error =
    EOL
  | ErrExpectedString
  | ErrExpectedList
  | ErrCanonInt
  | ErrCanonSize
  | ErrElemTooLarge
  | ErrValueTooLarge
  | ErrMoreThanOneValue
  | errNotInList
  | errNotAtEOL
  | errUintOverflow
  | errNoPointer
  | errDecodeIntoNil
  | io_EOF
  | io_ErrUnexpectedEOF
  | decodeError string rtype "ctx list"
  | errInvalidBool uint64
  | errWrongSize uint64 nat
  | errNotSerializable rtype
  | TagError string string string tag_msg
  | structFieldError rtype nat error
  | Panic string
  | OutOfFuel

section \<open>The encoding buffer (rlp/encbuffer.go)\<close>

text \<open>
  A list header record: where the list starts in the string data, and its size. Until
  the list is closed the size field holds the header bytes counted when it was opened.
\<close>

record listhead =
  offset :: int
  lsize :: int

text \<open>
  The buffer: string data (everything but list headers), the list headers, and the sum
  of the sizes of the encoded headers of the closed lists. The scratch array \<open>sizebuf\<close>
  is left out: every use fills the bytes it then reads.
\<close>

record encBuffer =
  str :: "byte list"
  lheads :: "listhead list"
  lhsize :: int

definition encBuffer_reset :: "encBuffer \<Rightarrow> encBuffer" where
  "encBuffer_reset buf = buf\<lparr>lhsize := 0, str := [], lheads := []\<rparr>"

definition getEncBuffer :: encBuffer where
  "getEncBuffer = \<lparr>str = [], lheads = [], lhsize = 0\<rparr>"

definition encBuffer_size :: "encBuffer \<Rightarrow> int" where
  "encBuffer_size buf = int (length (str buf)) + lhsize buf"

definition listhead_encode :: "listhead \<Rightarrow> byte list" where
  "listhead_encode head = puthead 0xC0 0xF7 (word_of_int (lsize head))"

definition encBuffer_writeBool :: "bool \<Rightarrow> encBuffer \<Rightarrow> encBuffer" where
  "encBuffer_writeBool b buf = (if b then buf\<lparr>str := str buf @ [0x01]\<rparr> else buf\<lparr>str := str buf @ [0x80]\<rparr>)"

definition encBuffer_writeUint64 :: "uint64 \<Rightarrow> encBuffer \<Rightarrow> encBuffer" where
  "encBuffer_writeUint64 i buf =
     (if i = 0 then buf\<lparr>str := str buf @ [0x80]\<rparr>
      else if i < 128 then buf\<lparr>str := str buf @ [ucast i]\<rparr>
      else (let bs = putint i in
            buf\<lparr>str := str buf @ (0x80 + of_nat (length bs)) # bs\<rparr>))"

definition encBuffer_encodeStringHeader :: "nat \<Rightarrow> encBuffer \<Rightarrow> encBuffer" where
  "encBuffer_encodeStringHeader sz buf =
     (if sz < 56 then buf\<lparr>str := str buf @ [0x80 + of_nat sz]\<rparr>
      else (let bs = putint (of_nat sz) in
            buf\<lparr>str := str buf @ (0xB7 + of_nat (length bs)) # bs\<rparr>))"

definition encBuffer_writeBytes :: "byte list \<Rightarrow> encBuffer \<Rightarrow> encBuffer" where
  "encBuffer_writeBytes b buf =
     (if length b = 1 \<and> hd b \<le> 0x7F then buf\<lparr>str := str buf @ [hd b]\<rparr>
      else (let buf' = encBuffer_encodeStringHeader (length b) buf in buf'\<lparr>str := str buf' @ b\<rparr>))"

definition encBuffer_writeString :: "byte list \<Rightarrow> encBuffer \<Rightarrow> encBuffer" where
  "encBuffer_writeString s buf = encBuffer_writeBytes s buf"

text \<open>
  The method \<open>list\<close> opens a list and returns the index of the new header (with the
  buffer); \<open>listEnd\<close> closes the list with that index. An index outside \<open>lheads\<close>
  panics in Go.
\<close>

definition encBuffer_list :: "encBuffer \<Rightarrow> nat \<times> encBuffer" where
  "encBuffer_list buf =
     (let buf' = buf\<lparr>lheads := lheads buf @ [\<lparr>offset = int (length (str buf)), lsize = lhsize buf\<rparr>]\<rparr>
      in (length (lheads buf') - 1, buf'))"

definition encBuffer_listEnd :: "nat \<Rightarrow> encBuffer \<Rightarrow> error + encBuffer" where
  "encBuffer_listEnd index buf =
     (if index < length (lheads buf) then
        (let lh = lheads buf ! index;
             sz = encBuffer_size buf - offset lh - lsize lh;
             buf' = buf\<lparr>lheads := (lheads buf)[index := lh\<lparr>lsize := sz\<rparr>]\<rparr>
         in if sz < 56 then Inr (buf'\<lparr>lhsize := lhsize buf' + 1\<rparr>)
            else Inr (buf'\<lparr>lhsize := lhsize buf' + (1 + intsize (word_of_int sz))\<rparr>))
      else Inl (Panic ''index out of range''))"

text \<open>
  \<open>writeTo\<close> hands the output to a writer piece by piece: for each header, the string
  data before it (when there is some), then the encoded header; at the end, the rest
  of the string data. The writer of the model is a byte buffer that takes every piece,
  so the result is the bytes written. Slicing \<open>str\<close> outside its bounds panics in Go.
\<close>

fun encBuffer_writeTo_loop :: "byte list \<Rightarrow> int \<Rightarrow> listhead list \<Rightarrow> byte list \<Rightarrow> error + byte list" where
  "encBuffer_writeTo_loop s strpos [] w =
     (if strpos < int (length s) then Inr (w @ drop (nat strpos) s) else Inr w)"
| "encBuffer_writeTo_loop s strpos (head # heads) w =
     (if offset head - strpos > 0 then
        (if offset head \<le> int (length s) \<and> 0 \<le> strpos then
           (let piece = take (nat (offset head - strpos)) (drop (nat strpos) s)
            in encBuffer_writeTo_loop s (strpos + int (length piece)) heads (w @ piece @ listhead_encode head))
         else Inl (Panic ''slice bounds out of range''))
      else encBuffer_writeTo_loop s strpos heads (w @ listhead_encode head))"

definition encBuffer_writeTo :: "encBuffer \<Rightarrow> byte list \<Rightarrow> error + byte list" where
  "encBuffer_writeTo buf w = encBuffer_writeTo_loop (str buf) 0 (lheads buf) w"

section \<open>Raw values (rlp/raw.go)\<close>

definition AppendUint64 :: "byte list \<Rightarrow> uint64 \<Rightarrow> byte list" where
  "AppendUint64 b i =
     (if i = 0 then b @ [0x80]
      else if i < 128 then b @ [ucast i]
      else if i < push_bit 8 1 then b @ [0x81, ucast i]
      else if i < push_bit 16 1 then b @ [0x82, ucast (drop_bit 8 i), ucast i]
      else if i < push_bit 24 1 then
        b @ [0x83, ucast (drop_bit 16 i), ucast (drop_bit 8 i), ucast i]
      else if i < push_bit 32 1 then
        b @ [0x84, ucast (drop_bit 24 i), ucast (drop_bit 16 i), ucast (drop_bit 8 i), ucast i]
      else if i < push_bit 40 1 then
        b @ [0x85, ucast (drop_bit 32 i), ucast (drop_bit 24 i), ucast (drop_bit 16 i),
             ucast (drop_bit 8 i), ucast i]
      else if i < push_bit 48 1 then
        b @ [0x86, ucast (drop_bit 40 i), ucast (drop_bit 32 i), ucast (drop_bit 24 i),
             ucast (drop_bit 16 i), ucast (drop_bit 8 i), ucast i]
      else if i < push_bit 56 1 then
        b @ [0x87, ucast (drop_bit 48 i), ucast (drop_bit 40 i), ucast (drop_bit 32 i),
             ucast (drop_bit 24 i), ucast (drop_bit 16 i), ucast (drop_bit 8 i), ucast i]
      else
        b @ [0x88, ucast (drop_bit 56 i), ucast (drop_bit 48 i), ucast (drop_bit 40 i),
             ucast (drop_bit 32 i), ucast (drop_bit 24 i), ucast (drop_bit 16 i),
             ucast (drop_bit 8 i), ucast i])"


section \<open>The decoding stream (rlp/decode.go)\<close>

text \<open>The kind of a value in the input. Go numbers them 0, 1, 2.\<close>

datatype Kind = Byte | String | List

text \<open>
  The stream. \<open>reader\<close> is the input not yet read from \<open>r\<close>; \<open>vsize\<close> is the field
  \<open>size\<close>; \<open>stack\<close> holds one counter per open list, innermost first (Go appends, so
  the head of the list here is the last element there); \<open>kind\<close> is the cached kind, with
  \<open>None\<close> for the value -1 that marks an empty cache. The scratch array \<open>uintbuf\<close> is left
  out: \<open>readUint\<close> clears and fills the bytes it reads.
\<close>

record Stream =
  reader :: "byte list"
  remaining :: uint64
  vsize :: uint64
  kinderr :: "error option"
  stack :: "uint64 list"
  kind :: "Kind option"
  byteval :: byte
  limited :: bool

definition listLimit :: "Stream \<Rightarrow> bool \<times> uint64" where
  "listLimit s = (case stack s of [] \<Rightarrow> (False, 0) | limit # _ \<Rightarrow> (True, limit))"

text \<open>
  \<open>willRead\<close> is called before every read of \<open>n\<close> bytes: it empties the kind cache,
  compares \<open>n\<close> with the counter of the innermost list and with the input limit, and
  takes \<open>n\<close> off each of them.
\<close>

definition willRead :: "uint64 \<Rightarrow> Stream \<Rightarrow> error option \<times> Stream" where
  "willRead n s =
     (let s1 = s\<lparr>kind := None\<rparr> in
      case stack s1 of
        limit # rest \<Rightarrow>
          if n > limit then (Some ErrElemTooLarge, s1)
          else (let s2 = s1\<lparr>stack := (limit - n) # rest\<rparr> in
                if limited s2 then
                  (if n > remaining s2 then (Some ErrValueTooLarge, s2)
                   else (None, s2\<lparr>remaining := remaining s2 - n\<rparr>))
                else (None, s2))
      | [] \<Rightarrow>
          if limited s1 then
            (if n > remaining s1 then (Some ErrValueTooLarge, s1)
             else (None, s1\<lparr>remaining := remaining s1 - n\<rparr>))
          else (None, s1))"

text \<open>
  \<open>readFull\<close> fills a buffer of \<open>n\<close> bytes from the reader. The reader hands out what
  it has and then reports the end of the input; a buffer left short becomes
  \<open>io.ErrUnexpectedEOF\<close>, with the input used up.
\<close>

definition readFull :: "uint64 \<Rightarrow> Stream \<Rightarrow> (error + byte list) \<times> Stream" where
  "readFull n s =
     (case willRead n s of
        (Some err, s1) \<Rightarrow> (Inl err, s1)
      | (None, s1) \<Rightarrow>
          if unat n \<le> length (reader s1) then
            (Inr (take (unat n) (reader s1)), s1\<lparr>reader := drop (unat n) (reader s1)\<rparr>)
          else (Inl io_ErrUnexpectedEOF, s1\<lparr>reader := []\<rparr>))"

definition readByte :: "Stream \<Rightarrow> (error + byte) \<times> Stream" where
  "readByte s =
     (case willRead 1 s of
        (Some err, s1) \<Rightarrow> (Inl err, s1)
      | (None, s1) \<Rightarrow>
          (case reader s1 of
             [] \<Rightarrow> (Inl io_ErrUnexpectedEOF, s1)
           | b # rest \<Rightarrow> (Inr b, s1\<lparr>reader := rest\<rparr>)))"

text \<open>\<open>binary.BigEndian.Uint64\<close> on the scratch buffer: the bytes read, most significant first.\<close>

definition be_uint64 :: "byte list \<Rightarrow> uint64" where
  "be_uint64 bs = foldl (\<lambda>acc b. push_bit 8 acc OR ucast b) 0 bs"

text \<open>
  \<open>readUint\<close> reads an integer of \<open>size\<close> bytes. Its callers pass at most 8; a larger
  size would slice the 8-byte scratch buffer out of range.
\<close>

definition readUint :: "byte \<Rightarrow> Stream \<Rightarrow> (error + uint64) \<times> Stream" where
  "readUint sz s =
     (if sz = 0 then (Inr 0, s\<lparr>kind := None\<rparr>)
      else if sz = 1 then
        (case readByte s of
           (Inl err, s1) \<Rightarrow> (Inl err, s1)
         | (Inr b, s1) \<Rightarrow> (Inr (ucast b), s1))
      else if sz > 8 then (Inl (Panic ''slice bounds out of range''), s)
      else
        (case readFull (ucast sz) s of
           (Inl err, s1) \<Rightarrow> (Inl err, s1)
         | (Inr buffer, s1) \<Rightarrow>
             if hd buffer = 0 then (Inl ErrCanonSize, s1)
             else (Inr (be_uint64 buffer), s1)))"

text \<open>
  \<open>readKind\<close> reads the type tag of the next value. It returns kind, size and error as
  Go does: with an error the kind is the zero kind \<open>Byte\<close> where Go returns 0.
\<close>

definition readKind :: "Stream \<Rightarrow> (Kind \<times> uint64 \<times> error option) \<times> Stream" where
  "readKind s =
     (case readByte s of
        (Inl err, s1) \<Rightarrow>
          (if stack s1 = [] then
             (if err = io_ErrUnexpectedEOF then ((Byte, 0, Some io_EOF), s1)
              else if err = ErrValueTooLarge then ((Byte, 0, Some io_EOF), s1)
              else ((Byte, 0, Some err), s1))
           else ((Byte, 0, Some err), s1))
      | (Inr b, s1) \<Rightarrow>
          (let s2 = s1\<lparr>byteval := 0\<rparr> in
           if b < 0x80 then ((Byte, 0, None), s2\<lparr>byteval := b\<rparr>)
           else if b < 0xB8 then ((String, ucast (b - 0x80), None), s2)
           else if b < 0xC0 then
             (case readUint (b - 0xB7) s2 of
                (Inl err, s3) \<Rightarrow> ((String, 0, Some err), s3)
              | (Inr sz, s3) \<Rightarrow>
                  if sz < 56 then ((String, sz, Some ErrCanonSize), s3)
                  else ((String, sz, None), s3))
           else if b < 0xF8 then ((List, ucast (b - 0xC0), None), s2)
           else
             (case readUint (b - 0xF7) s2 of
                (Inl err, s3) \<Rightarrow> ((List, 0, Some err), s3)
              | (Inr sz, s3) \<Rightarrow>
                  if sz < 56 then ((List, sz, Some ErrCanonSize), s3)
                  else ((List, sz, None), s3))))"

text \<open>
  \<open>Kind\<close> returns the cached kind, or reports the end of the innermost list, or reads
  the next type tag and checks the size it announces against the counter of the
  innermost list (as it was before the tag was read) and against the input limit.
\<close>

definition Stream_Kind :: "Stream \<Rightarrow> (Kind \<times> uint64 \<times> error option) \<times> Stream" where
  "Stream_Kind s =
     (case kind s of
        Some k \<Rightarrow> ((k, vsize s, kinderr s), s)
      | None \<Rightarrow>
          (let (inList, limit) = listLimit s in
           if inList \<and> limit = 0 then ((Byte, 0, Some EOL), s)
           else
             (case readKind s of ((k, sz, err), s1) \<Rightarrow>
                (let s2 = s1\<lparr>kind := Some k, vsize := sz, kinderr := err\<rparr>;
                     s3 = (if kinderr s2 = None then
                             (if inList \<and> vsize s2 > limit then s2\<lparr>kinderr := Some ErrElemTooLarge\<rparr>
                              else if limited s2 \<and> vsize s2 > remaining s2 then
                                s2\<lparr>kinderr := Some ErrValueTooLarge\<rparr>
                              else s2)
                           else s2)
                 in ((k, vsize s3, kinderr s3), s3)))))"

definition Stream_Bytes :: "Stream \<Rightarrow> (error + byte list) \<times> Stream" where
  "Stream_Bytes s =
     (case Stream_Kind s of
        ((k, sz, Some err), s1) \<Rightarrow> (Inl err, s1)
      | ((Byte, sz, None), s1) \<Rightarrow> (Inr [byteval s1], s1\<lparr>kind := None\<rparr>)
      | ((String, sz, None), s1) \<Rightarrow>
          (case readFull sz s1 of
             (Inl err, s2) \<Rightarrow> (Inl err, s2)
           | (Inr b, s2) \<Rightarrow>
               if sz = 1 \<and> hd b < 128 then (Inl ErrCanonSize, s2) else (Inr b, s2))
      | ((List, sz, None), s1) \<Rightarrow> (Inl ErrExpectedString, s1))"

text \<open>\<open>ReadBytes\<close> reads a value of exactly \<open>n\<close> bytes, the length of the buffer it is given.\<close>

definition Stream_ReadBytes :: "nat \<Rightarrow> Stream \<Rightarrow> (error + byte list) \<times> Stream" where
  "Stream_ReadBytes n s =
     (case Stream_Kind s of
        ((k, sz, Some err), s1) \<Rightarrow> (Inl err, s1)
      | ((Byte, sz, None), s1) \<Rightarrow>
          if n \<noteq> 1 then (Inl (errWrongSize 1 n), s1)
          else (Inr [byteval s1], s1\<lparr>kind := None\<rparr>)
      | ((String, sz, None), s1) \<Rightarrow>
          if of_nat n \<noteq> sz then (Inl (errWrongSize sz n), s1)
          else
            (case readFull (of_nat n) s1 of
               (Inl err, s2) \<Rightarrow> (Inl err, s2)
             | (Inr b, s2) \<Rightarrow>
                 if sz = 1 \<and> hd b < 128 then (Inl ErrCanonSize, s2) else (Inr b, s2))
      | ((List, sz, None), s1) \<Rightarrow> (Inl ErrExpectedString, s1))"

text \<open>The method \<open>uint\<close> of the stream: an unsigned integer of at most \<open>maxbits\<close> bits.\<close>

definition Stream_uint :: "nat \<Rightarrow> Stream \<Rightarrow> (error + uint64) \<times> Stream" where
  "Stream_uint maxbits s =
     (case Stream_Kind s of
        ((k, sz, Some err), s1) \<Rightarrow> (Inl err, s1)
      | ((Byte, sz, None), s1) \<Rightarrow>
          if byteval s1 = 0 then (Inl ErrCanonInt, s1)
          else (Inr (ucast (byteval s1)), s1\<lparr>kind := None\<rparr>)
      | ((String, sz, None), s1) \<Rightarrow>
          if sz > of_nat (maxbits div 8) then (Inl errUintOverflow, s1)
          else
            (case readUint (ucast sz) s1 of
               (Inl err, s2) \<Rightarrow>
                 if err = ErrCanonSize then (Inl ErrCanonInt, s2) else (Inl err, s2)
             | (Inr v, s2) \<Rightarrow>
                 if sz > 0 \<and> v < 128 then (Inl ErrCanonSize, s2) else (Inr v, s2))
      | ((List, sz, None), s1) \<Rightarrow> (Inl ErrExpectedString, s1))"

definition Stream_Uint64 :: "Stream \<Rightarrow> (error + uint64) \<times> Stream" where
  "Stream_Uint64 s = Stream_uint 64 s"

definition Stream_Bool :: "Stream \<Rightarrow> (error + bool) \<times> Stream" where
  "Stream_Bool s =
     (case Stream_uint 8 s of
        (Inl err, s1) \<Rightarrow> (Inl err, s1)
      | (Inr num, s1) \<Rightarrow>
          if num = 0 then (Inr False, s1)
          else if num = 1 then (Inr True, s1)
          else (Inl (errInvalidBool num), s1))"

text \<open>
  \<open>List\<close> starts a list: the size of the inner list is taken off the counter of the
  outer list, then pushed as the new innermost counter.
\<close>

definition Stream_List :: "Stream \<Rightarrow> (error + uint64) \<times> Stream" where
  "Stream_List s =
     (case Stream_Kind s of
        ((k, sz, Some err), s1) \<Rightarrow> (Inl err, s1)
      | ((k, sz, None), s1) \<Rightarrow>
          if k \<noteq> List then (Inl ErrExpectedList, s1)
          else
            (let s2 = (case stack s1 of
                         [] \<Rightarrow> s1
                       | limit # rest \<Rightarrow> s1\<lparr>stack := (limit - sz) # rest\<rparr>);
                 s3 = s2\<lparr>stack := sz # stack s2\<rparr>
             in (Inr sz, s3\<lparr>kind := None, vsize := 0\<rparr>)))"

definition Stream_ListEnd :: "Stream \<Rightarrow> error option \<times> Stream" where
  "Stream_ListEnd s =
     (case stack s of
        [] \<Rightarrow> (Some errNotInList, s)
      | limit # rest \<Rightarrow>
          if limit > 0 then (Some errNotAtEOL, s)
          else (None, s\<lparr>stack := rest, kind := None, vsize := 0\<rparr>))"

definition Stream_MoreDataInList :: "Stream \<Rightarrow> bool" where
  "Stream_MoreDataInList s = (snd (listLimit s) > 0)"

text \<open>
  \<open>Reset\<close> starts over on a new reader. \<open>sized\<close> says that the reader is one of the
  three whose length Go can ask for (\<open>bytes.Reader\<close>, \<open>bytes.Buffer\<close>,
  \<open>strings.Reader\<close>); then the length is the input limit when none is given.
\<close>

definition Reset :: "byte list \<Rightarrow> bool \<Rightarrow> uint64 \<Rightarrow> Stream \<Rightarrow> Stream" where
  "Reset r sized inputLimit s =
     (let s1 = (if inputLimit > 0 then s\<lparr>remaining := inputLimit, limited := True\<rparr>
                else if sized then s\<lparr>remaining := of_nat (length r), limited := True\<rparr>
                else s\<lparr>limited := False\<rparr>)
      in s1\<lparr>reader := r, stack := [], vsize := 0, kind := None, kinderr := None, byteval := 0\<rparr>)"

text \<open>A new stream is the zero value of the struct (its kind is the zero kind), reset.\<close>

definition zeroStream :: Stream where
  "zeroStream = \<lparr>reader = [], remaining = 0, vsize = 0, kinderr = None, stack = [],
     kind = Some Byte, byteval = 0, limited = False\<rparr>"

definition NewStream :: "byte list \<Rightarrow> bool \<Rightarrow> uint64 \<Rightarrow> Stream" where
  "NewStream r sized inputLimit = Reset r sized inputLimit zeroStream"

section \<open>Splitting raw values (rlp/raw.go)\<close>

text \<open>
  \<open>readSize\<close> reads a size of \<open>slen\<close> bytes from the start of \<open>b\<close>. The Go switch spells
  out the lengths 1 to 8; any other length leaves the size at 0.
\<close>

definition readSize :: "byte list \<Rightarrow> byte \<Rightarrow> error + uint64" where
  "readSize b slen =
     (if unat slen > length b then Inl io_ErrUnexpectedEOF
      else
        (let s = (if 1 \<le> slen \<and> slen \<le> 8 then be_uint64 (take (unat slen) b) else 0)
         in if s < 56 \<or> hd b = 0 then Inl ErrCanonSize else Inr s))"

text \<open>\<open>readKind\<close> of raw.go: kind, tag size and content size of the value at the start of \<open>buf\<close>.\<close>

definition raw_readKind :: "byte list \<Rightarrow> error + (Kind \<times> uint64 \<times> uint64)" where
  "raw_readKind buf =
     (case buf of
        [] \<Rightarrow> Inl io_ErrUnexpectedEOF
      | b # rest \<Rightarrow>
          (let r =
             (if b < 0x80 then Inr (Byte, 0, 1)
              else if b < 0xB8 then
                (let contentsize = ucast (b - 0x80) :: uint64 in
                 if contentsize = 1 \<and> length buf > 1 \<and> buf ! 1 < 128 then Inl ErrCanonSize
                 else Inr (String, 1, contentsize))
              else if b < 0xC0 then
                (case readSize rest (b - 0xB7) of
                   Inl err \<Rightarrow> Inl err
                 | Inr contentsize \<Rightarrow> Inr (String, ucast (b - 0xB7) + 1, contentsize))
              else if b < 0xF8 then Inr (List, 1, ucast (b - 0xC0))
              else
                (case readSize rest (b - 0xF7) of
                   Inl err \<Rightarrow> Inl err
                 | Inr contentsize \<Rightarrow> Inr (List, ucast (b - 0xF7) + 1, contentsize)))
           in case r of
                Inl err \<Rightarrow> Inl err
              | Inr (k, tagsize, contentsize) \<Rightarrow>
                  if contentsize > of_nat (length buf) - tagsize then Inl ErrValueTooLarge
                  else Inr (k, tagsize, contentsize)))"

text \<open>
  \<open>Split\<close> returns kind, content and rest; with an error the rest is the whole input.
\<close>

definition Split :: "byte list \<Rightarrow> (error + (Kind \<times> byte list)) \<times> byte list" where
  "Split b =
     (case raw_readKind b of
        Inl err \<Rightarrow> (Inl err, b)
      | Inr (k, ts, cs) \<Rightarrow>
          (Inr (k, take (unat cs) (drop (unat ts) b)), drop (unat ts + unat cs) b))"

definition SplitString :: "byte list \<Rightarrow> (error + byte list) \<times> byte list" where
  "SplitString b =
     (case Split b of
        (Inl err, rest) \<Rightarrow> (Inl err, b)
      | (Inr (k, content), rest) \<Rightarrow>
          if k = List then (Inl ErrExpectedString, b) else (Inr content, rest))"


section \<open>Struct tags (rlp/internal/rlpstruct/rlpstruct.go)\<close>

text \<open>
  The type description of package rlpstruct: kind, the two coder flags and the element
  type (of a pointer, slice or array). Its \<open>Name\<close>, which the processing never reads, is
  left out.
\<close>

datatype stype =
  SType (t_Kind: rkind) (t_IsEncoder: bool) (t_IsDecoder: bool) (t_Elem: "stype option")

record Field =
  Name :: string
  Index :: nat
  Exported :: bool
  Type :: stype
  Tag :: string

abbreviation (input) NilKindString :: byte where "NilKindString \<equiv> 0x80"
abbreviation (input) NilKindList :: byte where "NilKindList \<equiv> 0xC0"

record Tags =
  NilKind :: byte
  NilOK :: bool
  Optional :: bool
  Tail :: bool
  Ignored :: bool

text \<open>\<open>Tags{}\<close>, the zero value.\<close>

definition noTags :: Tags where
  "noTags = \<lparr>NilKind = 0, NilOK = False, Optional = False, Tail = False, Ignored = False\<rparr>"

definition isByte :: "stype \<Rightarrow> bool" where
  "isByte typ \<longleftrightarrow> t_Kind typ = reflect_Uint8 \<and> \<not> t_IsEncoder typ"

text \<open>A slice or array type has its element type; Go dereferences it without asking.\<close>

definition isByteArray :: "stype \<Rightarrow> bool" where
  "isByteArray typ \<longleftrightarrow>
     (t_Kind typ = reflect_Slice \<or> t_Kind typ = reflect_Array) \<and>
     (case t_Elem typ of Some e \<Rightarrow> isByte e | None \<Rightarrow> False)"

definition DefaultNilValue :: "stype \<Rightarrow> byte" where
  "DefaultNilValue t =
     (let k = t_Kind t in
      if isUint k \<or> k = reflect_String \<or> k = reflect_Bool \<or> isByteArray t then NilKindString
      else NilKindList)"

text \<open>
  \<open>strings.Split(s, ",")\<close> and \<open>strings.TrimSpace\<close>, on tags in ASCII: the pieces between
  commas (one empty piece for the empty string), without the white space around them.
\<close>

fun split_comma :: "string \<Rightarrow> string list" where
  "split_comma [] = [[]]"
| "split_comma (c # cs) =
     (if c = CHR '','' then [] # split_comma cs
      else (case split_comma cs of [] \<Rightarrow> [[c]] | p # ps \<Rightarrow> (c # p) # ps))"

definition isSpace :: "char \<Rightarrow> bool" where
  "isSpace c \<longleftrightarrow> c \<in> {CHR '' '', CHR 0x09, CHR 0x0A, CHR 0x0B, CHR 0x0C, CHR 0x0D}"

definition TrimSpace :: "string \<Rightarrow> string" where
  "TrimSpace s = rev (dropWhile isSpace (rev (dropWhile isSpace s)))"

text \<open>
  \<open>parseTag\<close> goes through the pieces of the tag in order, sets the flags and stops at
  the first piece that does not fit the field.
\<close>

fun parseTag_loop :: "Field \<Rightarrow> nat \<Rightarrow> string list \<Rightarrow> Tags \<Rightarrow> error + Tags" where
  "parseTag_loop field lastPublic [] ts = Inr ts"
| "parseTag_loop field lastPublic (t0 # rest) ts =
     (let t = TrimSpace t0 in
      if t = [] then parseTag_loop field lastPublic rest ts
      else if t = ''-'' then parseTag_loop field lastPublic rest (ts\<lparr>Ignored := True\<rparr>)
      else if t = ''nil'' \<or> t = ''nilString'' \<or> t = ''nilList'' then
        (let ts1 = ts\<lparr>NilOK := True\<rparr> in
         if t_Kind (Type field) \<noteq> reflect_Ptr then
           Inl (TagError [] (Name field) t msg_not_pointer)
         else if t = ''nil'' then
           (case t_Elem (Type field) of
              None \<Rightarrow> Inl (Panic ''nil pointer dereference'')
            | Some e \<Rightarrow> parseTag_loop field lastPublic rest (ts1\<lparr>NilKind := DefaultNilValue e\<rparr>))
         else if t = ''nilString'' then
           parseTag_loop field lastPublic rest (ts1\<lparr>NilKind := NilKindString\<rparr>)
         else parseTag_loop field lastPublic rest (ts1\<lparr>NilKind := NilKindList\<rparr>))
      else if t = ''optional'' then
        (let ts1 = ts\<lparr>Optional := True\<rparr> in
         if Tail ts1 then Inl (TagError [] (Name field) t msg_also_tail)
         else parseTag_loop field lastPublic rest ts1)
      else if t = ''tail'' then
        (let ts1 = ts\<lparr>Tail := True\<rparr> in
         if Index field \<noteq> lastPublic then Inl (TagError [] (Name field) t msg_not_last)
         else if Optional ts1 then Inl (TagError [] (Name field) t msg_also_optional)
         else if t_Kind (Type field) \<noteq> reflect_Slice then
           Inl (TagError [] (Name field) t msg_not_slice)
         else parseTag_loop field lastPublic rest ts1)
      else Inl (TagError [] (Name field) t msg_unknown_tag))"

definition parseTag :: "Field \<Rightarrow> nat \<Rightarrow> error + Tags" where
  "parseTag field lastPublic = parseTag_loop field lastPublic (split_comma (Tag field)) noTags"

definition lastPublicField :: "Field list \<Rightarrow> nat" where
  "lastPublicField flds = foldl (\<lambda>last f. if Exported f then Index f else last) 0 flds"

text \<open>
  The first loop of \<open>ProcessFields\<close>: the exported flds that are not ignored, each
  with its tags, in the order of declaration; the first tag error ends it.
\<close>

fun collectFields :: "nat \<Rightarrow> Field list \<Rightarrow> error + (Field list \<times> Tags list)" where
  "collectFields lastPublic [] = Inr ([], [])"
| "collectFields lastPublic (field # rest) =
     (if \<not> Exported field then collectFields lastPublic rest
      else
        (case parseTag field lastPublic of
           Inl err \<Rightarrow> Inl err
         | Inr ts \<Rightarrow>
             if Ignored ts then collectFields lastPublic rest
             else
               (case collectFields lastPublic rest of
                  Inl err \<Rightarrow> Inl err
                | Inr (flds, tags) \<Rightarrow> Inr (field # flds, ts # tags))))"

text \<open>
  The second loop: once a field is optional (or the tail), every later field must be;
  \<open>anyOptional\<close> and \<open>firstOptionalName\<close> are the two variables of the loop.
\<close>

fun checkOptional :: "(Field \<times> Tags) list \<Rightarrow> bool \<Rightarrow> string \<Rightarrow> error option" where
  "checkOptional [] anyOptional firstOptionalName = None"
| "checkOptional ((field, ts) # rest) anyOptional firstOptionalName =
     (if Optional ts \<or> Tail ts then
        checkOptional rest True (if \<not> anyOptional then Name field else firstOptionalName)
      else if anyOptional then
        Some (TagError [] (Name field) [] (msg_must_be_optional firstOptionalName))
      else checkOptional rest anyOptional firstOptionalName)"

definition ProcessFields :: "Field list \<Rightarrow> error + (Field list \<times> Tags list)" where
  "ProcessFields allFields =
     (let lastPublic = lastPublicField allFields in
      case collectFields lastPublic allFields of
        Inl err \<Rightarrow> Inl err
      | Inr (flds, tags) \<Rightarrow>
          (case checkOptional (zip flds tags) False [] of
             Some err \<Rightarrow> Inl err
           | None \<Rightarrow> Inr (flds, tags)))"

section \<open>The type cache (rlp/typecache.go)\<close>

text \<open>
  A writer encodes a value into the buffer; a decoder reads a value from the stream.
  Go's decoder stores into a destination it is handed. Every decoder modelled here
  overwrites the whole of what it decodes into when it succeeds, and \<open>Decode\<close> is given a
  fresh destination, so the decoder of the model returns the value stored (a struct
  starts from its zero value). What a failed decoder leaves in the destination is not
  modelled.
\<close>

type_synonym writer = "val \<Rightarrow> encBuffer \<Rightarrow> error + encBuffer"
type_synonym decoder = "Stream \<Rightarrow> (error + val) \<times> Stream"

text \<open>
  The field of a struct as the coders see it: index in the struct, cache entry of the
  field's type, and the optional flag. A cache entry holds decoder and writer with
  their build errors; the builder of writers reads the writer half only and the
  builder of decoders the decoder half, so \<open>info\<close> is the half that the builder at hand
  asks for: \<open>Inl\<close> the build error, \<open>Inr\<close> the coder.
\<close>

record 'i field =
  index :: nat
  info :: 'i
  optional :: bool

text \<open>The types of the model have no methods: neither coder flag is ever set.\<close>

fun rtypeToStructType :: "rtype \<Rightarrow> stype" where
  "rtypeToStructType (Prim k) = SType k False False None"
| "rtypeToStructType (SliceOf t) = SType reflect_Slice False False (Some (rtypeToStructType t))"
| "rtypeToStructType (StructOf n fs) = SType reflect_Struct False False None"

definition allStructFields :: "sfield list \<Rightarrow> Field list" where
  "allStructFields fs =
     map (\<lambda>(i, rf). \<lparr>Name = sf_Name rf, Index = i, Exported = (sf_PkgPath rf = []),
                      Type = rtypeToStructType (sf_Type rf), Tag = sf_Tag rf\<rparr>)
         (enumerate 0 fs)"

text \<open>
  \<open>structFields\<close> runs the fields of a struct type through \<open>ProcessFields\<close> and looks up
  the cache entry of each field left, with the field's tags; \<open>gen\<close> is that lookup
  (\<open>theTC.infoWhileGenerating\<close>). A tag error gets the name of the struct type.
\<close>

definition structFields :: "(rtype \<Rightarrow> Tags \<Rightarrow> 'i) \<Rightarrow> rtype \<Rightarrow> error + 'i field list" where
  "structFields gen typ =
     (case typ of
        StructOf name fs \<Rightarrow>
          (case ProcessFields (allStructFields fs) of
             Inl err \<Rightarrow>
               (case err of
                  TagError st f t m \<Rightarrow> Inl (TagError name f t m)
                | _ \<Rightarrow> Inl err)
           | Inr (structFields, structTags) \<Rightarrow>
               Inr (map (\<lambda>(sf, tags).
                          \<lparr>index = Index sf,
                           info = gen (sf_Type (fs ! Index sf)) tags,
                           optional = Optional tags\<rparr>)
                        (zip structFields structTags)))
      | _ \<Rightarrow> Inl (Panic ''reflect: NumField of non-struct type''))"

text \<open>
  The fields that \<open>ProcessFields\<close> returns are fields it was given, so their indices are
  indices of the struct and their types are smaller than the struct type. This is what
  makes building a coder for a struct a recursion over the type.
\<close>

lemma collectFields_subset:
  "collectFields lp fs = Inr (sfs, tags) \<Longrightarrow> set sfs \<subseteq> set fs \<and> length sfs = length tags"
proof (induction fs arbitrary: sfs tags)
  case Nil
  then show ?case by simp
next
  case (Cons f fs)
  then show ?case
    by (auto split: if_splits sum.splits prod.splits)
qed

lemma ProcessFields_subset:
  "ProcessFields fs = Inr (sfs, tags) \<Longrightarrow> set sfs \<subseteq> set fs \<and> length sfs = length tags"
proof -
  assume "ProcessFields fs = Inr (sfs, tags)"
  then have "collectFields (lastPublicField fs) fs = Inr (sfs, tags)"
    by (auto simp: ProcessFields_def Let_def split: sum.splits option.splits)
  then show ?thesis by (rule collectFields_subset)
qed

lemma allStructFields_Index:
  "f \<in> set (allStructFields fs) \<Longrightarrow> Index f < length fs"
  by (auto simp: allStructFields_def in_set_enumerate_eq)

lemma size_field_type: "i < length fs \<Longrightarrow> size (sf_Type (fs ! i)) < size (StructOf n fs)"
proof -
  assume "i < length fs"
  then have "fs ! i \<in> set fs" by simp
  then have "size (fs ! i) \<le> size_list size fs"
    by (simp add: size_list_estimation')
  moreover have "size (sf_Type (fs ! i)) < size (fs ! i)"
    by (cases "fs ! i") simp
  ultimately show ?thesis by simp
qed

lemma structFields_cong [fundef_cong]:
  assumes "typ = typ'"
    and "\<And>t ts. size t < size typ' \<Longrightarrow> gen t ts = gen' t ts"
  shows "structFields gen typ = structFields gen' typ'"
proof (cases typ')
  case (StructOf name fs)
  have "\<And>sfs tags sf tg. ProcessFields (allStructFields fs) = Inr (sfs, tags) \<Longrightarrow>
          (sf, tg) \<in> set (zip sfs tags) \<Longrightarrow>
          gen (sf_Type (fs ! Index sf)) tg = gen' (sf_Type (fs ! Index sf)) tg"
  proof -
    fix sfs tags sf tg
    assume p: "ProcessFields (allStructFields fs) = Inr (sfs, tags)"
      and m: "(sf, tg) \<in> set (zip sfs tags)"
    from m have "sf \<in> set sfs" by (rule set_zip_leftD)
    with ProcessFields_subset [OF p] have "sf \<in> set (allStructFields fs)" by auto
    then have "Index sf < length fs" by (rule allStructFields_Index)
    then show "gen (sf_Type (fs ! Index sf)) tg = gen' (sf_Type (fs ! Index sf)) tg"
      using assms(2) StructOf size_field_type by blast
  qed
  then show ?thesis
    unfolding structFields_def assms(1) StructOf
    by (auto split: sum.splits error.splits intro!: map_cong)
qed (simp_all add: structFields_def assms(1))


section \<open>Writers (rlp/encode.go)\<close>

fun firstOptionalField :: "'i field list \<Rightarrow> nat" where
  "firstOptionalField [] = 0"
| "firstOptionalField (f # fs) = (if optional f then 0 else 1 + firstOptionalField fs)"

text \<open>
  \<open>reflect.Value.IsZero\<close>: a slice is zero when it is nil, a struct when all its fields
  are. Nothing asks this of a value of the kinds the codec rejects.
\<close>

fun IsZero :: "val \<Rightarrow> bool" where
  "IsZero (VUint i) = (i = 0)"
| "IsZero (VBool b) = (\<not> b)"
| "IsZero (VString s) = (s = [])"
| "IsZero (VBytes b) = False"
| "IsZero VNil = True"
| "IsZero (VSlice vs) = False"
| "IsZero (VStruct vs) = list_all IsZero vs"
| "IsZero VOther = True"

text \<open>
  \<open>val.Field(i)\<close> and the elements of a slice value (\<open>val.Len()\<close>, \<open>val.Index(i)\<close>). A
  writer is only ever applied to a value of its type; reflect panics on any other.
\<close>

definition Value_Field :: "val \<Rightarrow> nat \<Rightarrow> error + val" where
  "Value_Field v i =
     (case v of
        VStruct vs \<Rightarrow> if i < length vs then Inr (vs ! i) else Inl (Panic ''reflect: Field index out of range'')
      | _ \<Rightarrow> Inl (Panic ''reflect: call of Value.Field on a value that is no struct''))"

definition Value_elems :: "val \<Rightarrow> error + val list" where
  "Value_elems v =
     (case v of
        VNil \<Rightarrow> Inr []
      | VSlice vs \<Rightarrow> Inr vs
      | _ \<Rightarrow> Inl (Panic ''reflect: call of Value.Len on a value that is no slice''))"

definition writeUint :: writer where
  "writeUint v w =
     (case v of
        VUint i \<Rightarrow> Inr (encBuffer_writeUint64 i w)
      | _ \<Rightarrow> Inl (Panic ''reflect: call of Value.Uint on a value of another kind''))"

definition writeBool :: writer where
  "writeBool v w =
     (case v of
        VBool b \<Rightarrow> Inr (encBuffer_writeBool b w)
      | _ \<Rightarrow> Inl (Panic ''reflect: call of Value.Bool on a value of another kind''))"

definition writeBytes :: writer where
  "writeBytes v w =
     (case v of
        VBytes b \<Rightarrow> Inr (encBuffer_writeBytes b w)
      | VNil \<Rightarrow> Inr (encBuffer_writeBytes [] w)
      | _ \<Rightarrow> Inl (Panic ''reflect: call of Value.Bytes on a value of another kind''))"

definition writeString :: writer where
  "writeString v w =
     (case v of
        VString s \<Rightarrow>
          if length s = 1 \<and> hd s \<le> 0x7f then Inr (w\<lparr>str := str w @ [hd s]\<rparr>)
          else (let w' = encBuffer_encodeStringHeader (length s) w in Inr (w'\<lparr>str := str w' @ s\<rparr>))
      | _ \<Rightarrow> Inl (Panic ''reflect: call of Value.String on a value of another kind''))"

text \<open>The loop over the elements of a slice: the first error ends it.\<close>

fun writeElems :: "writer \<Rightarrow> val list \<Rightarrow> encBuffer \<Rightarrow> error + encBuffer" where
  "writeElems wr [] w = Inr w"
| "writeElems wr (v # vs) w =
     (case wr v w of Inl err \<Rightarrow> Inl err | Inr w' \<Rightarrow> writeElems wr vs w')"

definition makeSliceWriter :: "(rtype \<Rightarrow> Tags \<Rightarrow> error + writer) \<Rightarrow> rtype \<Rightarrow> Tags \<Rightarrow> error + writer" where
  "makeSliceWriter gen typ ts =
     (case typ of
        SliceOf et \<Rightarrow>
          (case gen et noTags of
             Inl err \<Rightarrow> Inl err
           | Inr etwriter \<Rightarrow>
               if Tail ts then
                 Inr (\<lambda>val w.
                   case Value_elems val of
                     Inl err \<Rightarrow> Inl err
                   | Inr vs \<Rightarrow> writeElems etwriter vs w)
               else
                 Inr (\<lambda>val w.
                   case Value_elems val of
                     Inl err \<Rightarrow> Inl err
                   | Inr vs \<Rightarrow>
                       if length vs = 0 then Inr (w\<lparr>str := str w @ [0xC0]\<rparr>)
                       else
                         (case encBuffer_list w of (listOffset, w1) \<Rightarrow>
                            (case writeElems etwriter vs w1 of
                               Inl err \<Rightarrow> Inl err
                             | Inr w2 \<Rightarrow> encBuffer_listEnd listOffset w2))))
      | _ \<Rightarrow> Inl (Panic ''reflect: Elem of a type that is no slice''))"

lemma makeSliceWriter_cong [fundef_cong]:
  assumes "typ = typ'" and "ts = ts'"
    and "\<And>t ts. size t < size typ' \<Longrightarrow> gen t ts = gen' t ts"
  shows "makeSliceWriter gen typ ts = makeSliceWriter gen' typ' ts'"
  using assms by (cases typ') (simp_all add: makeSliceWriter_def)

text \<open>The first field whose type has no coder decides the build error of the struct.\<close>

fun fieldErr :: "rtype \<Rightarrow> (error + 'w) field list \<Rightarrow> error option" where
  "fieldErr typ [] = None"
| "fieldErr typ (f # fs) =
     (case info f of
        Inl err \<Rightarrow> Some (structFieldError typ (index f) err)
      | Inr w \<Rightarrow> fieldErr typ fs)"

fun writeFields :: "(error + writer) field list \<Rightarrow> val \<Rightarrow> encBuffer \<Rightarrow> error + encBuffer" where
  "writeFields [] val w = Inr w"
| "writeFields (f # fs) val w =
     (case info f of
        Inl err \<Rightarrow> Inl (Panic ''call of a nil writer'')
      | Inr wr \<Rightarrow>
          (case Value_Field val (index f) of
             Inl err \<Rightarrow> Inl err
           | Inr fv \<Rightarrow>
               (case wr fv w of
                  Inl err \<Rightarrow> Inl err
                | Inr w' \<Rightarrow> writeFields fs val w')))"

text \<open>
  The scan of the struct writer with optional fields: \<open>lastField\<close> starts at the last
  field and goes down while it is not below the first optional field and the field's
  value is zero.
\<close>

function scanLastField :: "val \<Rightarrow> 'i field list \<Rightarrow> int \<Rightarrow> int \<Rightarrow> error + int" where
  "scanLastField val flds firstOptional lastField =
     (if lastField \<ge> firstOptional then
        (if 0 \<le> lastField \<and> nat lastField < length flds then
           (case Value_Field val (index (flds ! nat lastField)) of
              Inl err \<Rightarrow> Inl err
            | Inr fv \<Rightarrow>
                if \<not> IsZero fv then Inr lastField
                else scanLastField val flds firstOptional (lastField - 1))
         else Inl (Panic ''index out of range''))
      else Inr lastField)"
  by pat_completeness auto
termination
  by (relation "measure (\<lambda>(val, flds, fo, lf). nat (lf - fo + 1))") auto

definition makeStructWriter :: "(rtype \<Rightarrow> Tags \<Rightarrow> error + writer) \<Rightarrow> rtype \<Rightarrow> error + writer" where
  "makeStructWriter gen typ =
     (case structFields gen typ of
        Inl err \<Rightarrow> Inl err
      | Inr flds \<Rightarrow>
          (case fieldErr typ flds of
             Some err \<Rightarrow> Inl err
           | None \<Rightarrow>
               (let firstOptional = firstOptionalField flds in
                if firstOptional = length flds then
                  Inr (\<lambda>val w.
                    case encBuffer_list w of (lh, w1) \<Rightarrow>
                      (case writeFields flds val w1 of
                         Inl err \<Rightarrow> Inl err
                       | Inr w2 \<Rightarrow> encBuffer_listEnd lh w2))
                else
                  Inr (\<lambda>val w.
                    case scanLastField val flds (int firstOptional) (int (length flds) - 1) of
                      Inl err \<Rightarrow> Inl err
                    | Inr lastField \<Rightarrow>
                        (case encBuffer_list w of (lh, w1) \<Rightarrow>
                           (case writeFields (take (nat (lastField + 1)) flds) val w1 of
                              Inl err \<Rightarrow> Inl err
                            | Inr w2 \<Rightarrow> encBuffer_listEnd lh w2))))))"

lemma makeStructWriter_cong [fundef_cong]:
  assumes "typ = typ'"
    and "\<And>t ts. size t < size typ' \<Longrightarrow> gen t ts = gen' t ts"
  shows "makeStructWriter gen typ = makeStructWriter gen' typ'"
proof -
  have "structFields gen typ = structFields gen' typ'"
    using assms by (rule structFields_cong)
  then show ?thesis by (simp add: makeStructWriter_def assms(1))
qed

text \<open>
  \<open>makeWriter\<close> picks the writer by the kind of the type. A kind of \<open>Prim\<close> other than
  the unsigned integers, bool and string has no writer here; for the kinds of Go this
  is the last case of the switch (signed integers, floats, maps, channels, functions).
\<close>

function makeWriter :: "rtype \<Rightarrow> Tags \<Rightarrow> error + writer" where
  "makeWriter (Prim k) ts =
     (if isUint k then Inr writeUint
      else if k = reflect_Bool then Inr writeBool
      else if k = reflect_String then Inr writeString
      else Inl (errNotSerializable (Prim k)))"
| "makeWriter (SliceOf et) ts =
     (if Kind_of et = reflect_Uint8 then Inr writeBytes
      else makeSliceWriter makeWriter (SliceOf et) ts)"
| "makeWriter (StructOf name fs) ts = makeStructWriter makeWriter (StructOf name fs)"
  by pat_completeness auto
termination
  by (relation "measure (\<lambda>(t, ts). size t)") auto


section \<open>Decoders (rlp/decode.go)\<close>

text \<open>
  \<open>wrapStreamError\<close> turns the stream's errors into decoding errors that name the target
  type; \<open>addErrorContext\<close> adds a step of the path to such an error.
\<close>

definition wrapStreamError :: "error \<Rightarrow> rtype \<Rightarrow> error" where
  "wrapStreamError err typ =
     (if err = ErrCanonInt then decodeError ''non-canonical integer (leading zero bytes)'' typ []
      else if err = ErrCanonSize then decodeError ''non-canonical size information'' typ []
      else if err = ErrExpectedList then decodeError ''expected input list'' typ []
      else if err = ErrExpectedString then decodeError ''expected input string or byte'' typ []
      else if err = errUintOverflow then decodeError ''input string too long'' typ []
      else if err = errNotAtEOL then decodeError ''input list has too many elements'' typ []
      else err)"

definition addErrorContext :: "error \<Rightarrow> ctx \<Rightarrow> error" where
  "addErrorContext err c =
     (case err of
        decodeError msg typ cs \<Rightarrow> decodeError msg typ (cs @ [c])
      | _ \<Rightarrow> err)"

text \<open>\<open>reflect.Zero\<close>: the zero value of a type.\<close>

primrec zero_val :: "rtype \<Rightarrow> val" and zero_field :: "sfield \<Rightarrow> val" where
  "zero_val (Prim k) =
     (if isUint k then VUint 0
      else if k = reflect_Bool then VBool False
      else if k = reflect_String then VString []
      else VOther)"
| "zero_val (SliceOf t) = VNil"
| "zero_val (StructOf name fs) = VStruct (map zero_field fs)"
| "zero_field (StructField name pkg t tag) = zero_val t"

text \<open>
  The decoders of the basic types. \<open>val.SetUint\<close> stores into an integer of the width of
  the type; \<open>Stream_uint\<close> has checked that the number fits.
\<close>

definition decodeUint :: "rtype \<Rightarrow> decoder" where
  "decodeUint typ s =
     (case Stream_uint (Bits (Kind_of typ)) s of
        (Inl err, s1) \<Rightarrow> (Inl (wrapStreamError err typ), s1)
      | (Inr num, s1) \<Rightarrow> (Inr (VUint (take_bit (Bits (Kind_of typ)) num)), s1))"

definition decodeBool :: "rtype \<Rightarrow> decoder" where
  "decodeBool typ s =
     (case Stream_Bool s of
        (Inl err, s1) \<Rightarrow> (Inl (wrapStreamError err typ), s1)
      | (Inr b, s1) \<Rightarrow> (Inr (VBool b), s1))"

definition decodeString :: "rtype \<Rightarrow> decoder" where
  "decodeString typ s =
     (case Stream_Bytes s of
        (Inl err, s1) \<Rightarrow> (Inl (wrapStreamError err typ), s1)
      | (Inr b, s1) \<Rightarrow> (Inr (VString b), s1))"

definition decodeByteSlice :: "rtype \<Rightarrow> decoder" where
  "decodeByteSlice typ s =
     (case Stream_Bytes s of
        (Inl err, s1) \<Rightarrow> (Inl (wrapStreamError err typ), s1)
      | (Inr b, s1) \<Rightarrow> (Inr (VBytes b), s1))"

text \<open>
  \<open>decodeSliceElems\<close> decodes elements until the element decoder reports the end of the
  list. The Go loop has no bound of its own. Each round of it that goes on has read at
  least the type tag of an element, so the model lets it run once more than there are
  bytes of input left, \<open>OutOfFuel\<close> standing for a loop that would still go on. The
  destination is a fresh slice: the result is the non-nil slice of the elements decoded.
\<close>

fun decodeSliceElems_loop :: "decoder \<Rightarrow> nat \<Rightarrow> nat \<Rightarrow> val list \<Rightarrow> Stream \<Rightarrow> (error + val list) \<times> Stream" where
  "decodeSliceElems_loop elemdec 0 i vs s = (Inl OutOfFuel, s)"
| "decodeSliceElems_loop elemdec (Suc fuel) i vs s =
     (case elemdec s of
        (Inl err, s1) \<Rightarrow>
          if err = EOL then (Inr vs, s1)
          else (Inl (addErrorContext err (ctx_index i)), s1)
      | (Inr v, s1) \<Rightarrow> decodeSliceElems_loop elemdec fuel (i + 1) (vs @ [v]) s1)"

definition decodeSliceElems :: "decoder \<Rightarrow> Stream \<Rightarrow> (error + val) \<times> Stream" where
  "decodeSliceElems elemdec s =
     (case decodeSliceElems_loop elemdec (Suc (length (reader s))) 0 [] s of
        (Inl err, s1) \<Rightarrow> (Inl err, s1)
      | (Inr vs, s1) \<Rightarrow> (Inr (VSlice vs), s1))"

definition decodeListSlice :: "rtype \<Rightarrow> decoder \<Rightarrow> decoder" where
  "decodeListSlice typ elemdec s =
     (case Stream_List s of
        (Inl err, s1) \<Rightarrow> (Inl (wrapStreamError err typ), s1)
      | (Inr sz, s1) \<Rightarrow>
          if sz = 0 then
            (case Stream_ListEnd s1 of
               (Some err, s2) \<Rightarrow> (Inl err, s2)
             | (None, s2) \<Rightarrow> (Inr (VSlice []), s2))
          else
            (case decodeSliceElems elemdec s1 of
               (Inl err, s2) \<Rightarrow> (Inl err, s2)
             | (Inr v, s2) \<Rightarrow>
                 (case Stream_ListEnd s2 of
                    (Some err, s3) \<Rightarrow> (Inl err, s3)
                  | (None, s3) \<Rightarrow> (Inr v, s3))))"

definition makeListDecoder :: "(rtype \<Rightarrow> Tags \<Rightarrow> error + decoder) \<Rightarrow> rtype \<Rightarrow> Tags \<Rightarrow> error + decoder" where
  "makeListDecoder gen typ tag =
     (case typ of
        SliceOf etype \<Rightarrow>
          if Kind_of etype = reflect_Uint8 then Inr (decodeByteSlice typ)
          else
            (case gen etype noTags of
               Inl err \<Rightarrow> Inl err
             | Inr etdecoder \<Rightarrow>
                 if Tail tag then Inr (decodeSliceElems etdecoder)
                 else Inr (decodeListSlice typ etdecoder))
      | _ \<Rightarrow> Inl (Panic ''reflect: Elem of a type that is no slice''))"

lemma makeListDecoder_cong [fundef_cong]:
  assumes "typ = typ'" and "ts = ts'"
    and "\<And>t ts. size t < size typ' \<Longrightarrow> gen t ts = gen' t ts"
  shows "makeListDecoder gen typ ts = makeListDecoder gen' typ' ts'"
  using assms by (cases typ') (simp_all add: makeListDecoder_def)

text \<open>
  Storing into field \<open>i\<close> of a struct value, and \<open>typ.Field(i)\<close> of a struct type. Both
  are applied to fields that \<open>structFields\<close> returned, whose indices are in range.
\<close>

definition Value_SetField :: "val \<Rightarrow> nat \<Rightarrow> val \<Rightarrow> val" where
  "Value_SetField sv i v = (case sv of VStruct vs \<Rightarrow> VStruct (vs[i := v]) | _ \<Rightarrow> sv)"

definition Type_Field :: "rtype \<Rightarrow> nat \<Rightarrow> sfield" where
  "Type_Field typ i = (case typ of StructOf name fs \<Rightarrow> fs ! i)"

fun zeroFields :: "rtype \<Rightarrow> val \<Rightarrow> 'i field list \<Rightarrow> val" where
  "zeroFields typ structval [] = structval"
| "zeroFields typ structval (f # fs) =
     zeroFields typ (Value_SetField structval (index f) (zero_val (sf_Type (Type_Field typ (index f))))) fs"

text \<open>
  The loop of the struct decoder over the fields: at the end of the list an optional
  field ends the loop with the fields from there on set to zero, another field is an
  error.
\<close>

fun decodeFields :: "rtype \<Rightarrow> (error + decoder) field list \<Rightarrow> val \<Rightarrow> Stream \<Rightarrow> (error + val) \<times> Stream" where
  "decodeFields typ [] val s = (Inr val, s)"
| "decodeFields typ (f # fs) val s =
     (case info f of
        Inl e \<Rightarrow> (Inl (Panic ''call of a nil decoder''), s)
      | Inr dec \<Rightarrow>
          (case dec s of
             (Inl err, s1) \<Rightarrow>
               if err = EOL then
                 (if optional f then (Inr (zeroFields typ val (f # fs)), s1)
                  else (Inl (decodeError ''too few elements'' typ []), s1))
               else (Inl (addErrorContext err (ctx_field (sf_Name (Type_Field typ (index f))))), s1)
           | (Inr v, s1) \<Rightarrow> decodeFields typ fs (Value_SetField val (index f) v) s1))"

definition makeStructDecoder :: "(rtype \<Rightarrow> Tags \<Rightarrow> error + decoder) \<Rightarrow> rtype \<Rightarrow> error + decoder" where
  "makeStructDecoder gen typ =
     (case structFields gen typ of
        Inl err \<Rightarrow> Inl err
      | Inr flds \<Rightarrow>
          (case fieldErr typ flds of
             Some err \<Rightarrow> Inl err
           | None \<Rightarrow>
               Inr (\<lambda>s.
                 case Stream_List s of
                   (Inl err, s1) \<Rightarrow> (Inl (wrapStreamError err typ), s1)
                 | (Inr sz, s1) \<Rightarrow>
                     (case decodeFields typ flds (zero_val typ) s1 of
                        (Inl err, s2) \<Rightarrow> (Inl err, s2)
                      | (Inr v, s2) \<Rightarrow>
                          (case Stream_ListEnd s2 of
                             (Some err, s3) \<Rightarrow> (Inl (wrapStreamError err typ), s3)
                           | (None, s3) \<Rightarrow> (Inr v, s3))))))"

lemma makeStructDecoder_cong [fundef_cong]:
  assumes "typ = typ'"
    and "\<And>t ts. size t < size typ' \<Longrightarrow> gen t ts = gen' t ts"
  shows "makeStructDecoder gen typ = makeStructDecoder gen' typ'"
proof -
  have "structFields gen typ = structFields gen' typ'"
    using assms by (rule structFields_cong)
  then show ?thesis by (simp add: makeStructDecoder_def assms(1))
qed

text \<open>\<open>makeDecoder\<close> picks the decoder by the kind of the type, as \<open>makeWriter\<close> does.\<close>

function makeDecoder :: "rtype \<Rightarrow> Tags \<Rightarrow> error + decoder" where
  "makeDecoder (Prim k) tags =
     (if isUint k then Inr (decodeUint (Prim k))
      else if k = reflect_Bool then Inr (decodeBool (Prim k))
      else if k = reflect_String then Inr (decodeString (Prim k))
      else Inl (errNotSerializable (Prim k)))"
| "makeDecoder (SliceOf et) tags = makeListDecoder makeDecoder (SliceOf et) tags"
| "makeDecoder (StructOf name fs) tags = makeStructDecoder makeDecoder (StructOf name fs)"
  by pat_completeness auto
termination
  by (relation "measure (\<lambda>(t, ts). size t)") auto

section \<open>The entry points\<close>

text \<open>
  The cache returns for a type what the two builders build for it with no tags.
  \<open>Stream_Decode\<close> is the method \<open>Decode\<close> of the stream for a destination that is a
  non-nil pointer to a value of type \<open>typ\<close>. \<open>Decode\<close> and \<open>DecodeBytes\<close> take their stream
  from a pool, in whatever state its last user left it (\<open>pooled\<close>), and reset it;
  \<open>DecodeBytes\<close> reads from a reader over the slice, which is none of the readers with a
  known length, and gives the length as the limit. \<open>Encode\<close> is modelled for a writer
  that is not itself an encoding buffer and takes every write (a byte buffer holding
  \<open>w\<close>); the result is the content of the writer afterwards.
\<close>

definition cachedDecoder :: "rtype \<Rightarrow> error + decoder" where
  "cachedDecoder typ = makeDecoder typ noTags"

definition cachedWriter :: "rtype \<Rightarrow> error + writer" where
  "cachedWriter typ = makeWriter typ noTags"

definition Stream_Decode :: "rtype \<Rightarrow> Stream \<Rightarrow> (error + val) \<times> Stream" where
  "Stream_Decode typ s =
     (case cachedDecoder typ of
        Inl err \<Rightarrow> (Inl err, s)
      | Inr dec \<Rightarrow>
          (case dec s of
             (Inl err, s1) \<Rightarrow>
               (case err of
                  decodeError msg t cs \<Rightarrow>
                    if cs \<noteq> [] then (Inl (decodeError msg t (cs @ [ctx_type typ])), s1)
                    else (Inl err, s1)
                | _ \<Rightarrow> (Inl err, s1))
           | (Inr v, s1) \<Rightarrow> (Inr v, s1)))"

definition Decode :: "Stream \<Rightarrow> byte list \<Rightarrow> bool \<Rightarrow> rtype \<Rightarrow> (error + val) \<times> Stream" where
  "Decode pooled r sized typ = Stream_Decode typ (Reset r sized 0 pooled)"

definition DecodeBytes :: "Stream \<Rightarrow> byte list \<Rightarrow> rtype \<Rightarrow> error + val" where
  "DecodeBytes pooled b typ =
     (case Stream_Decode typ (Reset b False (of_nat (length b)) pooled) of
        (Inl err, s1) \<Rightarrow> Inl err
      | (Inr v, s1) \<Rightarrow> if length (reader s1) > 0 then Inl ErrMoreThanOneValue else Inr v)"

definition encBuffer_encode :: "rtype \<Rightarrow> val \<Rightarrow> encBuffer \<Rightarrow> error + encBuffer" where
  "encBuffer_encode typ val buf =
     (case cachedWriter typ of Inl err \<Rightarrow> Inl err | Inr wr \<Rightarrow> wr val buf)"

definition Encode :: "byte list \<Rightarrow> rtype \<Rightarrow> val \<Rightarrow> error + byte list" where
  "Encode w typ val =
     (case encBuffer_encode typ val getEncBuffer of
        Inl err \<Rightarrow> Inl err
      | Inr buf \<Rightarrow> encBuffer_writeTo buf w)"



section \<open>Reading within the limits\<close>

text \<open>
  Vocabulary for the proofs about the stream. \<open>can_read n s\<close>: neither the counter of the
  innermost list nor the input limit stands in the way of reading \<open>n\<close> more bytes.
  \<open>after_read n s\<close>: the stream after \<open>willRead\<close> has let \<open>n\<close> bytes pass.
\<close>

definition can_read :: "nat \<Rightarrow> Stream \<Rightarrow> bool" where
  "can_read n s \<longleftrightarrow>
     (case stack s of [] \<Rightarrow> True | limit # rest \<Rightarrow> n \<le> unat limit) \<and>
     (limited s \<longrightarrow> n \<le> unat (remaining s))"

definition after_read :: "nat \<Rightarrow> Stream \<Rightarrow> Stream" where
  "after_read n s =
     s\<lparr>kind := None,
       stack := (case stack s of [] \<Rightarrow> [] | limit # rest \<Rightarrow> (limit - of_nat n) # rest),
       remaining := (if limited s then remaining s - of_nat n else remaining s)\<rparr>"

lemma after_read_simps [simp]:
  "reader (after_read n s) = reader s"
  "limited (after_read n s) = limited s"
  "kind (after_read n s) = None"
  "byteval (after_read n s) = byteval s"
  "stack (after_read n s) = (case stack s of [] \<Rightarrow> [] | limit # rest \<Rightarrow> (limit - of_nat n) # rest)"
  "remaining (after_read n s) = (if limited s then remaining s - of_nat n else remaining s)"
  by (simp_all add: after_read_def)

lemma of_nat_le_word: "n \<le> unat (w :: uint64) \<Longrightarrow> (of_nat n :: uint64) \<le> w"
  by (simp add: word_le_nat_alt le_unat_uoi)

lemma unat_sub_of_nat: "n \<le> unat (w :: uint64) \<Longrightarrow> unat (w - of_nat n) = unat w - n"
  by (simp add: unat_sub of_nat_le_word le_unat_uoi)

lemma unat_of_nat64: "n < 2 ^ 64 \<Longrightarrow> unat (of_nat n :: uint64) = n"
  by (simp add: unat_of_nat)

lemma not_less_of_nat_word: "n \<le> unat (w :: uint64) \<Longrightarrow> \<not> w < of_nat n"
  using of_nat_le_word [of n w] by simp

lemma willRead_ok: "can_read n s \<Longrightarrow> willRead (of_nat n) s = (None, after_read n s)"
  by (auto simp: can_read_def willRead_def after_read_def Let_def not_less_of_nat_word
      split: list.splits)

lemma can_read_add: "can_read (a + b) s \<Longrightarrow> can_read b (after_read a s)"
  by (auto simp: can_read_def unat_sub_of_nat split: list.splits)

lemma can_read_mono: "can_read m s \<Longrightarrow> n \<le> m \<Longrightarrow> can_read n s"
  by (auto simp: can_read_def split: list.splits)

lemma after_read_add: "after_read b (after_read a s) = after_read (a + b) s"
  by (auto simp: after_read_def split: list.splits)

lemma readByte_ok:
  "can_read 1 s \<Longrightarrow> reader s = b # rest \<Longrightarrow>
   readByte s = (Inr b, (after_read 1 s)\<lparr>reader := rest\<rparr>)"
  using willRead_ok [of 1 s] by (simp add: readByte_def)

lemma readFull_ok:
  "can_read n s \<Longrightarrow> n < 2 ^ 64 \<Longrightarrow> reader s = bs @ rest \<Longrightarrow> length bs = n \<Longrightarrow>
   readFull (of_nat n) s = (Inr bs, (after_read n s)\<lparr>reader := rest\<rparr>)"
  by (simp add: readFull_def willRead_ok unat_of_nat64)


lemma unat_lt_byte: "unat (b::byte) < 256"
  using unsigned_less [of b, where 'a=nat] by simp

lemma unat_ucast_byte: "unat (ucast (b::byte) :: uint64) = unat b"
  using unat_lt_byte [of b] by (simp add: unsigned_ucast_eq take_bit_nat_eq_self_iff)

lemma be_uint64_single: "be_uint64 [b] = ucast b"
  by (simp add: be_uint64_def)

lemma byte_of_small_nat:
  "n \<le> 8 \<Longrightarrow> (ucast (of_nat n :: byte) :: uint64) = of_nat n \<and>
     ((of_nat n :: byte) = 0 \<longleftrightarrow> n = 0) \<and> ((of_nat n :: byte) = 1 \<longleftrightarrow> n = 1)
     \<and> \<not> (of_nat n :: byte) > 8"
proof -
  assume "n \<le> 8"
  then have "n \<in> {0, 1, 2, 3, 4, 5, 6, 7, 8}" by auto
  then show ?thesis by (elim insertE) simp_all
qed

lemma readUint_ok:
  assumes n: "1 \<le> n" "n \<le> 8" and lb: "length lb = n" and r: "reader s = lb @ rest"
    and c: "can_read n s"
  shows "readUint (of_nat n) s =
           (if 2 \<le> n \<and> hd lb = 0 then Inl ErrCanonSize else Inr (be_uint64 lb),
            (after_read n s)\<lparr>reader := rest\<rparr>)"
proof (cases "n = 1")
  case True
  then obtain b where b: "lb = [b]" using lb by (cases lb) auto
  have "readByte s = (Inr b, (after_read 1 s)\<lparr>reader := rest\<rparr>)"
    using readByte_ok [of s b rest] c r True b by simp
  then show ?thesis
    using True b by (simp add: readUint_def be_uint64_single)
next
  case False
  with n have n2: "2 \<le> n" by simp
  note bn = byte_of_small_nat [OF n(2)]
  have "n < 2 ^ 64" using n(2) by simp
  then have "readFull (of_nat n) s = (Inr lb, (after_read n s)\<lparr>reader := rest\<rparr>)"
    using readFull_ok [OF c _ r lb] by simp
  then show ?thesis
    using n2 False bn n by (simp add: readUint_def)
qed

lemma long_tag_facts:
  assumes "1 \<le> n" "n \<le> 8"
  shows "\<not> (0xB7 + of_nat n :: byte) < 0x80" "\<not> (0xB7 + of_nat n :: byte) < 0xB8"
    "(0xB7 + of_nat n :: byte) < 0xC0" "(0xB7 + of_nat n :: byte) - 0xB7 = of_nat n"
    "\<not> (0xF7 + of_nat n :: byte) < 0x80" "\<not> (0xF7 + of_nat n :: byte) < 0xB8"
    "\<not> (0xF7 + of_nat n :: byte) < 0xC0" "\<not> (0xF7 + of_nat n :: byte) < 0xF8"
    "(0xF7 + of_nat n :: byte) - 0xF7 = of_nat n"
proof -
  from assms have "n \<in> {1, 2, 3, 4, 5, 6, 7, 8}" by auto
  then show "\<not> (0xB7 + of_nat n :: byte) < 0x80" "\<not> (0xB7 + of_nat n :: byte) < 0xB8"
    "(0xB7 + of_nat n :: byte) < 0xC0" "(0xB7 + of_nat n :: byte) - 0xB7 = of_nat n"
    "\<not> (0xF7 + of_nat n :: byte) < 0x80" "\<not> (0xF7 + of_nat n :: byte) < 0xB8"
    "\<not> (0xF7 + of_nat n :: byte) < 0xC0" "\<not> (0xF7 + of_nat n :: byte) < 0xF8"
    "(0xF7 + of_nat n :: byte) - 0xF7 = of_nat n"
    by (elim insertE; simp)+
qed

lemma can_read_not_EOL: "can_read (Suc n) s \<Longrightarrow> \<not> (fst (listLimit s) \<and> snd (listLimit s) = 0)"
  by (auto simp: can_read_def listLimit_def split: list.splits)

lemma short_tag_facts:
  assumes "sz < 56"
  shows "\<not> (0x80 + of_nat sz :: byte) < 0x80" "(0x80 + of_nat sz :: byte) < 0xB8"
    "(ucast ((0x80 + of_nat sz :: byte) - 0x80) :: uint64) = of_nat sz"
    "\<not> (0xC0 + of_nat sz :: byte) < 0x80" "\<not> (0xC0 + of_nat sz :: byte) < 0xB8"
    "\<not> (0xC0 + of_nat sz :: byte) < 0xC0" "(0xC0 + of_nat sz :: byte) < 0xF8"
    "(ucast ((0xC0 + of_nat sz :: byte) - 0xC0) :: uint64) = of_nat sz"
    "(ucast (of_nat sz :: byte) :: uint64) = of_nat sz"
proof -
  have u: "unat (of_nat sz :: byte) = sz"
    using assms by (simp add: unat_of_nat)
  have a: "unat (0x80 + of_nat sz :: byte) = 128 + sz"
    using assms u by (simp add: unat_word_ariths)
  have b: "unat (0xC0 + of_nat sz :: byte) = 192 + sz"
    using assms u by (simp add: unat_word_ariths)
  show "\<not> (0x80 + of_nat sz :: byte) < 0x80" "(0x80 + of_nat sz :: byte) < 0xB8"
    "\<not> (0xC0 + of_nat sz :: byte) < 0x80" "\<not> (0xC0 + of_nat sz :: byte) < 0xB8"
    "\<not> (0xC0 + of_nat sz :: byte) < 0xC0" "(0xC0 + of_nat sz :: byte) < 0xF8"
    using assms by (simp_all add: word_less_nat_alt a b)
  have "unat (ucast (of_nat sz :: byte) :: uint64) = unat (of_nat sz :: uint64)"
    using assms by (simp add: unat_ucast_byte u unat_of_nat)
  then show "(ucast ((0x80 + of_nat sz :: byte) - 0x80) :: uint64) = of_nat sz"
    "(ucast ((0xC0 + of_nat sz :: byte) - 0xC0) :: uint64) = of_nat sz"
    "(ucast (of_nat sz :: byte) :: uint64) = of_nat sz"
    by (simp_all add: word_unat_eq_iff)
qed

text \<open>
  The state after \<open>Kind\<close> has read a header of \<open>h\<close> bytes for a value of kind \<open>k\<close>
  and size \<open>sz\<close>.
\<close>

definition after_kind :: "nat \<Rightarrow> Kind \<Rightarrow> uint64 \<Rightarrow> byte \<Rightarrow> byte list \<Rightarrow> Stream \<Rightarrow> Stream" where
  "after_kind h k sz bv rest s =
     (after_read h s)\<lparr>reader := rest, byteval := bv, kind := Some k, vsize := sz, kinderr := None\<rparr>"

lemma Stream_Kind_read:
  assumes "kind s = None" and "\<not> (fst (listLimit s) \<and> snd (listLimit s) = 0)"
    and "readKind s = ((k, sz, err), s1)"
  shows "Stream_Kind s =
     (let s2 = s1\<lparr>kind := Some k, vsize := sz, kinderr := err\<rparr>;
          s3 = (if err = None then
                  (if fst (listLimit s) \<and> sz > snd (listLimit s) then s2\<lparr>kinderr := Some ErrElemTooLarge\<rparr>
                   else if limited s1 \<and> sz > remaining s1 then s2\<lparr>kinderr := Some ErrValueTooLarge\<rparr>
                   else s2)
                else s2)
      in ((k, vsize s3, kinderr s3), s3))"
  using assms by (cases "listLimit s") (auto simp: Stream_Kind_def Let_def)

lemma Kind_byte:
  assumes k: "kind s = None" and r: "reader s = b # rest" and c: "can_read (Suc 0) s"
    and b: "b < 0x80"
  shows "Stream_Kind s = ((Byte, 0, None), after_kind (Suc 0) Byte 0 b rest s)"
proof -
  have rb: "readByte s = (Inr b, (after_read (Suc 0) s)\<lparr>reader := rest\<rparr>)"
    using readByte_ok [OF _ r] c by simp
  have rk: "readKind s = ((Byte, 0, None), (after_read (Suc 0) s)\<lparr>reader := rest, byteval := 0, byteval := b\<rparr>)"
    using b by (simp add: readKind_def rb Let_def)
  show ?thesis
    using Stream_Kind_read [OF k can_read_not_EOL [OF c] rk]
    by (simp add: Let_def after_kind_def)
qed

lemma size_check_ok:
  assumes c: "can_read (h + n) s" and n: "n < 2 ^ 64"
  shows "\<not> (fst (listLimit s) \<and> of_nat n > snd (listLimit s))"
    "\<not> (limited s \<and> (of_nat n :: uint64) > remaining (after_read h s))"
proof -
  show "\<not> (fst (listLimit s) \<and> of_nat n > snd (listLimit s))"
    using c by (auto simp: can_read_def listLimit_def not_less_of_nat_word split: list.splits)
  have "can_read n (after_read h s)" using c by (rule can_read_add)
  then show "\<not> (limited s \<and> (of_nat n :: uint64) > remaining (after_read h s))"
    by (auto simp: can_read_def not_less_of_nat_word simp del: after_read_simps(6))
qed

lemma Kind_short:
  assumes k: "kind s = None" and r: "reader s = tag # rest" and c: "can_read (Suc sz) s"
    and sz: "sz < 56"
    and tag: "tag = 0x80 + of_nat sz \<and> kd = String \<or> tag = 0xC0 + of_nat sz \<and> kd = List"
  shows "Stream_Kind s = ((kd, of_nat sz, None), after_kind (Suc 0) kd (of_nat sz) 0 rest s)"
proof -
  have c1: "can_read (Suc 0) s" using c by (rule can_read_mono) simp
  have rb: "readByte s = (Inr tag, (after_read (Suc 0) s)\<lparr>reader := rest\<rparr>)"
    using readByte_ok [OF _ r] c1 by simp
  have rk: "readKind s = ((kd, of_nat sz, None), (after_read (Suc 0) s)\<lparr>reader := rest, byteval := 0\<rparr>)"
    using tag by (auto simp: readKind_def rb Let_def short_tag_facts [OF sz])
  have "sz < 2 ^ 64" using sz by simp
  from size_check_ok [of "Suc 0" sz s, OF _ this] c
  have chk: "\<not> (fst (listLimit s) \<and> of_nat sz > snd (listLimit s))"
    "\<not> (limited s \<and> (of_nat sz :: uint64) > remaining (after_read (Suc 0) s))"
    by simp_all
  show ?thesis
    using Stream_Kind_read [OF k can_read_not_EOL [OF c1] rk] chk
    by (simp add: Let_def after_kind_def)
qed

lemma Kind_long_bad:
  assumes n: "1 \<le> n" "n \<le> 8" and lb: "length lb = n" and r: "reader s = tag # lb @ rest"
    and k: "kind s = None" and c: "can_read (Suc n) s"
    and tag: "tag = 0xB7 + of_nat n \<or> tag = 0xF7 + of_nat n"
    and bad: "be_uint64 lb < 56 \<or> hd lb = 0"
  shows "\<exists>kd sz s'. Stream_Kind s = ((kd, sz, Some ErrCanonSize), s')"
proof -
  have c1: "can_read (Suc 0) s" using c by (rule can_read_mono) simp
  have rb: "readByte s = (Inr tag, (after_read (Suc 0) s)\<lparr>reader := lb @ rest\<rparr>)"
    using readByte_ok [OF _ r] c1 by simp
  have c2: "can_read n ((after_read (Suc 0) s)\<lparr>reader := lb @ rest, byteval := 0\<rparr>)"
    using can_read_add [of "Suc 0" n s] c by (simp add: can_read_def)
  have ru: "readUint (of_nat n) ((after_read (Suc 0) s)\<lparr>reader := lb @ rest, byteval := 0\<rparr>) =
           (if 2 \<le> n \<and> hd lb = 0 then Inl ErrCanonSize else Inr (be_uint64 lb),
            (after_read n ((after_read (Suc 0) s)\<lparr>reader := lb @ rest, byteval := 0\<rparr>))\<lparr>reader := rest\<rparr>)"
    using readUint_ok [OF n lb _ c2] by simp
  have hd1: "be_uint64 lb < 56" if "\<not> 2 \<le> n" "hd lb = 0"
  proof -
    from that n have "length lb = 1" using lb by simp
    then obtain b where "lb = [b]" by (cases lb) auto
    with that show ?thesis by (simp add: be_uint64_single)
  qed
  have "\<exists>kd sz s'. readKind s = ((kd, sz, Some ErrCanonSize), s')"
  proof (cases "2 \<le> n \<and> hd lb = 0")
    case True
    then show ?thesis
      using tag by (auto simp: readKind_def rb Let_def long_tag_facts [OF n] ru)
  next
    case False
    then have "be_uint64 lb < 56" using bad hd1 by blast
    then show ?thesis
      using tag False by (auto simp: readKind_def rb Let_def long_tag_facts [OF n] ru)
  qed
  then obtain kd sz s' where "readKind s = ((kd, sz, Some ErrCanonSize), s')" by blast
  then show ?thesis
    using Stream_Kind_read [OF k can_read_not_EOL [OF c]]
    by (auto simp: Let_def)
qed


lemma Reset_simps [simp]:
  "reader (Reset r sized lim pooled) = r"
  "stack (Reset r sized lim pooled) = []"
  "kind (Reset r sized lim pooled) = None"
  by (simp_all add: Reset_def Let_def)

lemma can_read_Reset:
  assumes "lim = 0 \<or> n \<le> unat lim" and "n \<le> length r" and "length r < 2 ^ 64"
  shows "can_read n (Reset r sized lim pooled)"
  using assms by (auto simp: can_read_def Reset_def Let_def word_gt_0 unat_of_nat64)

lemma Stream_errors_of_Kind:
  assumes "Stream_Kind s = ((kd, sz, Some err), s')"
  shows "fst (Stream_Bytes s) = Inl err" "fst (Stream_List s) = Inl err"
    "fst (Stream_uint maxbits s) = Inl err" "fst (Stream_ReadBytes m s) = Inl err"
  using assms
  by (cases kd; simp add: Stream_Bytes_def Stream_List_def Stream_uint_def Stream_ReadBytes_def)+

lemma readSize_bad:
  assumes n: "1 \<le> length lb" "length lb \<le> 8" and bad: "be_uint64 lb < 56 \<or> hd lb = 0"
  shows "readSize (lb @ rest) (of_nat (length lb)) = Inl ErrCanonSize"
proof -
  from n have "length lb \<in> {1, 2, 3, 4, 5, 6, 7, 8}" by auto
  then have u: "unat (of_nat (length lb) :: byte) = length lb"
    "1 \<le> (of_nat (length lb) :: byte)" "(of_nat (length lb) :: byte) \<le> 8"
    by (elim insertE; simp)+
  have "hd (lb @ rest) = hd lb" using n by (cases lb) auto
  then show ?thesis
    using bad u by (auto simp: readSize_def Let_def)
qed

lemma can_read_after_kind [simp]: "can_read n (after_kind h k sz bv rest s) = can_read n (after_read h s)"
  by (simp add: can_read_def after_kind_def)

lemma after_kind_simps [simp]:
  "reader (after_kind h k sz bv rest s) = rest"
  "kind (after_kind h k sz bv rest s) = Some k"
  "byteval (after_kind h k sz bv rest s) = bv"
  "stack (after_kind h k sz bv rest s) = stack (after_read h s)"
  "limited (after_kind h k sz bv rest s) = limited s"
  "remaining (after_kind h k sz bv rest s) = remaining (after_read h s)"
  by (simp_all add: after_kind_def)


text \<open>Reading moves the innermost counter only: the counters of the outer lists stay.\<close>

lemma willRead_stack_tail:
  "stack s = cnt # rest \<Longrightarrow> \<exists>p. stack (snd (willRead n s)) = p # rest"
  by (auto simp: willRead_def Let_def)

lemma readByte_stack_tail:
  "stack s = cnt # rest \<Longrightarrow> \<exists>p. stack (snd (readByte s)) = p # rest"
  using willRead_stack_tail [of s cnt rest 1]
  by (auto simp: readByte_def split: prod.splits option.splits list.splits)

lemma readFull_stack_tail:
  "stack s = cnt # rest \<Longrightarrow> \<exists>p. stack (snd (readFull n s)) = p # rest"
  using willRead_stack_tail [of s cnt rest n]
  by (auto simp: readFull_def split: prod.splits option.splits)

lemma readUint_stack_tail:
  "stack s = cnt # rest \<Longrightarrow> \<exists>p. stack (snd (readUint sz s)) = p # rest"
  using readByte_stack_tail [of s cnt rest] readFull_stack_tail [of s cnt rest "ucast sz"]
  by (auto simp: readUint_def split: prod.splits sum.splits)

lemma readKind_stack_tail:
  assumes "stack s = cnt # rest"
  shows "\<exists>p. stack (snd (readKind s)) = p # rest"
proof -
  obtain r s1 where rb: "readByte s = (r, s1)" by (cases "readByte s")
  obtain p where p: "stack s1 = p # rest"
    using readByte_stack_tail [OF assms] rb by auto
  show ?thesis
  proof (cases r)
    case (Inl err)
    then show ?thesis using rb p by (simp add: readKind_def)
  next
    case (Inr b)
    have st: "stack (s1\<lparr>byteval := 0\<rparr>) = p # rest" using p by simp
    from readUint_stack_tail [OF st, of "b - 0xB7"] readUint_stack_tail [OF st, of "b - 0xF7"]
    show ?thesis using rb p Inr
      by (auto simp: readKind_def Let_def split: prod.splits sum.splits)
  qed
qed

lemma Stream_Kind_stack_tail:
  assumes "stack s = cnt # rest"
  shows "\<exists>p. stack (snd (Stream_Kind s)) = p # rest"
proof (cases "kind s")
  case None
  obtain r s1 where rk: "readKind s = (r, s1)" by (cases "readKind s")
  obtain p where p: "stack s1 = p # rest"
    using readKind_stack_tail [OF assms] rk by auto
  show ?thesis
    using None assms rk p
    by (auto simp: Stream_Kind_def listLimit_def Let_def split: prod.splits)
next
  case (Some k)
  then show ?thesis using assms by (simp add: Stream_Kind_def)
qed


section \<open>Sizes and headers\<close>

text \<open>
  \<open>be_bytes k w\<close> are the low \<open>k\<close> bytes of \<open>w\<close>, most significant first: what \<open>putint\<close>
  writes, for the \<open>k\<close> it picks.
\<close>

fun be_bytes :: "nat \<Rightarrow> uint64 \<Rightarrow> byte list" where
  "be_bytes 0 w = []"
| "be_bytes (Suc k) w = be_bytes k (drop_bit 8 w) @ [ucast w]"

lemma be_uint64_snoc: "be_uint64 (bs @ [b]) = push_bit 8 (be_uint64 bs) OR ucast b"
  by (simp add: be_uint64_def)

lemma putint_be_bytes:
  "putint w =
     (if unat w < 2 ^ 8 then be_bytes 1 w
      else if unat w < 2 ^ 16 then be_bytes 2 w
      else if unat w < 2 ^ 24 then be_bytes 3 w
      else if unat w < 2 ^ 32 then be_bytes 4 w
      else if unat w < 2 ^ 40 then be_bytes 5 w
      else if unat w < 2 ^ 48 then be_bytes 6 w
      else if unat w < 2 ^ 56 then be_bytes 7 w
      else be_bytes 8 w)"
proof -
  have e: "be_bytes (Suc 0) w = [ucast w]"
    "be_bytes 2 w = [ucast (drop_bit 8 w), ucast w]"
    "be_bytes 3 w = [ucast (drop_bit 16 w), ucast (drop_bit 8 w), ucast w]"
    "be_bytes 4 w = [ucast (drop_bit 24 w), ucast (drop_bit 16 w), ucast (drop_bit 8 w), ucast w]"
    "be_bytes 5 w = [ucast (drop_bit 32 w), ucast (drop_bit 24 w), ucast (drop_bit 16 w),
         ucast (drop_bit 8 w), ucast w]"
    "be_bytes 6 w = [ucast (drop_bit 40 w), ucast (drop_bit 32 w), ucast (drop_bit 24 w),
         ucast (drop_bit 16 w), ucast (drop_bit 8 w), ucast w]"
    "be_bytes 7 w = [ucast (drop_bit 48 w), ucast (drop_bit 40 w), ucast (drop_bit 32 w),
         ucast (drop_bit 24 w), ucast (drop_bit 16 w), ucast (drop_bit 8 w), ucast w]"
    "be_bytes 8 w = [ucast (drop_bit 56 w), ucast (drop_bit 48 w), ucast (drop_bit 40 w),
         ucast (drop_bit 32 w), ucast (drop_bit 24 w), ucast (drop_bit 16 w),
         ucast (drop_bit 8 w), ucast w]"
    by (simp_all add: numeral_eq_Suc drop_bit_drop_bit)
  show ?thesis
    by (simp add: putint_def word_less_nat_alt e del: be_bytes.simps)
qed


lemma take_bit_step:
  "push_bit 8 (take_bit (8 * k) (drop_bit 8 (w :: uint64))) OR ucast (ucast w :: byte) = take_bit (8 * Suc k) w"
proof (rule bit_word_eqI)
  fix n
  assume "n < LENGTH(64)"
  then show "bit (push_bit 8 (take_bit (8 * k) (drop_bit 8 w)) OR ucast (ucast w :: byte)) n =
     bit (take_bit (8 * Suc k) w) n"
    by (cases "n < 8") (auto simp: bit_simps)
qed

lemma be_uint64_be_bytes: "be_uint64 (be_bytes k w) = take_bit (8 * k) w"
proof (induction k arbitrary: w)
  case 0
  then show ?case by (simp add: be_uint64_def)
next
  case (Suc k)
  then show ?case
    by (simp only: be_bytes.simps be_uint64_snoc take_bit_step)
qed

lemma take_bit_unat_less: "unat (w :: uint64) < 2 ^ n \<Longrightarrow> take_bit n w = w"
  by (simp add: word_unat_eq_iff unsigned_take_bit_eq take_bit_nat_eq_self)


lemma be_uint64_putint: "be_uint64 (putint w) = w"
proof -
  have "unat w < 2 ^ 64" using unsigned_less [of w, where 'a=nat] by simp
  then have "\<exists>k. putint w = be_bytes k w \<and> unat w < 2 ^ (8 * k)"
    by (auto simp: putint_be_bytes simp del: be_bytes.simps)
  then show ?thesis
    by (auto simp: be_uint64_be_bytes take_bit_unat_less)
qed

text \<open>The number of bytes of a natural number, base 256.\<close>

fun nbytes :: "nat \<Rightarrow> nat" where
  "nbytes n = (if n < 256 then 1 else 1 + nbytes (n div 256))"

declare nbytes.simps [simp del]

lemma intsize_loop_nbytes: "intsize_loop sz w = sz - 1 + int (nbytes (unat w))"
proof (induction sz w rule: intsize_loop.induct)
  case (1 sz i)
  have "unat (drop_bit 8 i) = drop_bit 8 (unat i)"
    by (simp add: unat_drop_bit_eq)
  then have u: "unat (drop_bit 8 i) = unat i div 256"
    by (simp add: drop_bit_eq_div)
  show ?case
  proof (cases "drop_bit 8 i = 0")
    case True
    then have "unat i div 256 = 0" using u by simp
    then have "unat i < 256" by simp
    then show ?thesis
      using True by (subst intsize_loop.simps) (simp add: nbytes.simps [of "unat i"])
  next
    case False
    then have "unat (drop_bit 8 i) \<noteq> 0" by (simp add: unat_eq_0)
    then have "unat i div 256 \<noteq> 0" using u by simp
    then have "\<not> unat i < 256" by simp
    then show ?thesis
      using False "1.IH" [OF refl False] u
      by (subst intsize_loop.simps) (simp add: nbytes.simps [of "unat i"])
  qed
qed

lemma intsize_nbytes: "intsize w = int (nbytes (unat w))"
  by (simp add: intsize_def intsize_loop_nbytes)

lemma length_be_bytes [simp]: "length (be_bytes k w) = k"
  by (induction k arbitrary: w) simp_all

lemma nbytes_ranges:
  "nbytes n =
     (if n < 2 ^ 8 then 1
      else if n < 2 ^ 16 then 2
      else if n < 2 ^ 24 then 3
      else if n < 2 ^ 32 then 4
      else if n < 2 ^ 40 then 5
      else if n < 2 ^ 48 then 6
      else if n < 2 ^ 56 then 7
      else if n < 2 ^ 64 then 8
      else nbytes n)"
proof -
  have s: "\<And>m k. nbytes m = k \<Longrightarrow> 256 \<le> n \<Longrightarrow> m = n div 256 \<Longrightarrow> nbytes n = Suc k"
    by (simp add: nbytes.simps [of n])
  have 1: "n < 2 ^ 8 \<Longrightarrow> nbytes n = 1" for n by (simp add: nbytes.simps [of n])
  have 2: "\<not> n < 2 ^ 8 \<Longrightarrow> n < 2 ^ 16 \<Longrightarrow> nbytes n = 2" for n
    using 1 [of "n div 256"] by (simp add: nbytes.simps [of n])
  have 3: "\<not> n < 2 ^ 16 \<Longrightarrow> n < 2 ^ 24 \<Longrightarrow> nbytes n = 3" for n
    using 2 [of "n div 256"] by (simp add: nbytes.simps [of n])
  have 4: "\<not> n < 2 ^ 24 \<Longrightarrow> n < 2 ^ 32 \<Longrightarrow> nbytes n = 4" for n
    using 3 [of "n div 256"] by (simp add: nbytes.simps [of n])
  have 5: "\<not> n < 2 ^ 32 \<Longrightarrow> n < 2 ^ 40 \<Longrightarrow> nbytes n = 5" for n
    using 4 [of "n div 256"] by (simp add: nbytes.simps [of n])
  have 6: "\<not> n < 2 ^ 40 \<Longrightarrow> n < 2 ^ 48 \<Longrightarrow> nbytes n = 6" for n
    using 5 [of "n div 256"] by (simp add: nbytes.simps [of n])
  have 7: "\<not> n < 2 ^ 48 \<Longrightarrow> n < 2 ^ 56 \<Longrightarrow> nbytes n = 7" for n
    using 6 [of "n div 256"] by (simp add: nbytes.simps [of n])
  have 8: "\<not> n < 2 ^ 56 \<Longrightarrow> n < 2 ^ 64 \<Longrightarrow> nbytes n = 8" for n
    using 7 [of "n div 256"] by (simp add: nbytes.simps [of n])
  show ?thesis
    using 1 [of n] 2 [of n] 3 [of n] 4 [of n] 5 [of n] 6 [of n] 7 [of n] 8 [of n] by auto
qed

lemma length_putint: "length (putint w) = nbytes (unat w)"
proof -
  have "unat w < 2 ^ 64" using unsigned_less [of w, where 'a=nat] by simp
  then show ?thesis
    by (subst nbytes_ranges) (simp add: putint_be_bytes del: be_bytes.simps)
qed

lemma nbytes_bounds: "n < 256 ^ nbytes n \<and> (0 < n \<longrightarrow> 256 ^ (nbytes n - 1) \<le> n)"
proof (induction n rule: nbytes.induct)
  case (1 n)
  show ?case
  proof (cases "n < 256")
    case True
    then show ?thesis by (simp add: nbytes.simps [of n])
  next
    case False
    with 1 have ih: "n div 256 < 256 ^ nbytes (n div 256)"
      "256 ^ (nbytes (n div 256) - 1) \<le> n div 256" by auto
    have nb: "nbytes n = Suc (nbytes (n div 256))" using False by (simp add: nbytes.simps [of n])
    have "n < 256 * 256 ^ nbytes (n div 256)" using ih(1)
      by (simp add: less_mult_imp_div_less mult.commute)
    moreover have "256 * 256 ^ (nbytes (n div 256) - 1) \<le> n" using ih(2) by simp
    moreover have "0 < nbytes (n div 256)" by (simp add: nbytes.simps [of "n div 256"])
    ultimately show ?thesis using nb
      by (simp add: power_eq_if)
  qed
qed


lemma putint_nbytes: "putint w = be_bytes (nbytes (unat w)) w"
proof -
  have "unat w < 2 ^ 64" using unsigned_less [of w, where 'a=nat] by simp
  then show ?thesis
    by (subst nbytes_ranges) (simp add: putint_be_bytes del: be_bytes.simps)
qed

lemma nbytes_pos: "0 < nbytes n"
  by (simp add: nbytes.simps [of n])

lemma nbytes_word_le: "nbytes (unat (w :: uint64)) \<le> 8"
proof -
  have "unat w < 2 ^ 64" using unsigned_less [of w, where 'a=nat] by simp
  then show ?thesis by (subst nbytes_ranges) simp
qed

lemma hd_be_bytes: "0 < k \<Longrightarrow> hd (be_bytes k w) = ucast (drop_bit (8 * (k - 1)) w)"
proof (induction k arbitrary: w)
  case 0
  then show ?case by simp
next
  case (Suc k)
  show ?case
  proof (cases "k = 0")
    case True
    then show ?thesis by simp
  next
    case False
    then have "be_bytes k (drop_bit 8 w) \<noteq> []"
      using length_be_bytes [of k "drop_bit 8 w"] by (metis length_0_conv)
    moreover have "8 * (k - 1) + 8 = 8 * k" using False by simp
    moreover have "hd (be_bytes k (drop_bit 8 w)) = ucast (drop_bit (8 * (k - 1) + 8) w)"
      using Suc.IH [of "drop_bit 8 w"] False by (simp add: drop_bit_drop_bit add.commute)
    ultimately show ?thesis
      by simp
  qed
qed

lemma hd_putint_nonzero:
  assumes "w \<noteq> 0"
  shows "hd (putint w) \<noteq> 0"
proof -
  define k where "k = nbytes (unat w)"
  have k: "0 < k" by (simp add: k_def nbytes_pos)
  have pos: "0 < unat w" using assms by (simp add: unat_gt_0)
  from nbytes_bounds [of "unat w"] pos
  have b: "unat w < 256 ^ k" "256 ^ (k - 1) \<le> unat w" by (simp_all add: k_def)
  have p: "(2::nat) ^ (8 * (k - 1)) = 256 ^ (k - 1)"
    by (simp add: power_mult)
  have "unat (drop_bit (8 * (k - 1)) w) = drop_bit (8 * (k - 1)) (unat w)"
    by (simp add: unat_drop_bit_eq)
  also have "\<dots> = unat w div 2 ^ (8 * (k - 1))"
    by (simp add: drop_bit_eq_div)
  finally have d: "unat (drop_bit (8 * (k - 1)) w) = unat w div 256 ^ (k - 1)"
    by (simp only: p)
  have "256 ^ k = (256::nat) * 256 ^ (k - 1)" using k by (simp add: power_eq_if)
  then have "unat w div 256 ^ (k - 1) < 256"
    using b(1) by (simp add: less_mult_imp_div_less)
  moreover have "0 < unat w div 256 ^ (k - 1)"
    using b(2) by (simp add: div_greater_zero_iff)
  ultimately have "unat (ucast (drop_bit (8 * (k - 1)) w) :: byte) \<noteq> 0"
    using d by (simp add: unsigned_ucast_eq take_bit_nat_eq_self)
  then have "(ucast (drop_bit (8 * (k - 1)) w) :: byte) \<noteq> 0"
    by (simp add: unat_eq_0)
  then show ?thesis
    using hd_be_bytes [OF k, of w] by (simp add: putint_nbytes k_def)
qed

lemma length_puthead: "int (length (puthead smalltag largetag sz)) = headsize sz"
  by (simp add: puthead_def headsize_def Let_def intsize_nbytes length_putint)


section \<open>The order of optional fields\<close>

text \<open>
  A field is optional-like for the second loop of \<open>ProcessFields\<close> when it carries
  \<open>optional\<close> or \<open>tail\<close>; the loop passes exactly when no field that is not optional-like
  comes after one that is, and otherwise it reports the first such field, together with
  the first optional-like field.
\<close>

definition optlike :: "Tags \<Rightarrow> bool" where
  "optlike ts \<longleftrightarrow> Optional ts \<or> Tail ts"

lemma checkOptional_None:
  "checkOptional xs a nm = None \<longleftrightarrow>
     (\<forall>j < length xs. (a \<or> (\<exists>i < j. optlike (snd (xs ! i)))) \<longrightarrow> optlike (snd (xs ! j)))"
proof (induction xs arbitrary: a nm)
  case Nil
  then show ?case by simp
next
  case (Cons x xs)
  obtain f ts where x: "x = (f, ts)" by (cases x)
  show ?case
  proof (cases "optlike ts")
    case True
    have "checkOptional (x # xs) a nm = None \<longleftrightarrow> (\<forall>j < length xs. optlike (snd (xs ! j)))"
      using True Cons.IH [of True] by (simp add: x optlike_def)
    also have "\<dots> \<longleftrightarrow> (\<forall>j < length (x # xs). (a \<or> (\<exists>i < j. optlike (snd ((x # xs) ! i)))) \<longrightarrow> optlike (snd ((x # xs) ! j)))"
      (is "?L \<longleftrightarrow> ?R")
    proof
      assume l: ?L
      show ?R
      proof (intro allI impI)
        fix j assume "j < length (x # xs)"
        then show "optlike (snd ((x # xs) ! j))"
          using l True x by (cases j) auto
      qed
    next
      assume r: ?R
      show ?L
      proof (intro allI impI)
        fix j assume j: "j < length xs"
        have "optlike (snd ((x # xs) ! 0))" using True x by simp
        then have "optlike (snd ((x # xs) ! Suc j))"
          using r j by (metis Suc_less_eq length_Cons zero_less_Suc)
        then show "optlike (snd (xs ! j))" by simp
      qed
    qed
    finally show ?thesis .
  next
    case False
    show ?thesis
    proof (cases a)
      case True
      have "checkOptional (x # xs) a nm \<noteq> None"
        using False True by (simp add: x optlike_def)
      moreover have "\<not> optlike (snd ((x # xs) ! 0))" using False x by simp
      ultimately show ?thesis using True by auto
    next
      case a: False
      have "checkOptional (x # xs) a nm = None \<longleftrightarrow>
          (\<forall>j < length xs. (\<exists>i < j. optlike (snd (xs ! i))) \<longrightarrow> optlike (snd (xs ! j)))"
        using False a Cons.IH [of False nm] by (simp add: x optlike_def)
      also have "\<dots> \<longleftrightarrow> (\<forall>j < length (x # xs). (a \<or> (\<exists>i < j. optlike (snd ((x # xs) ! i)))) \<longrightarrow> optlike (snd ((x # xs) ! j)))"
        (is "?L \<longleftrightarrow> ?R")
      proof
        assume l: ?L
        show ?R
        proof (intro allI impI)
          fix j assume j: "j < length (x # xs)"
            and h: "a \<or> (\<exists>i < j. optlike (snd ((x # xs) ! i)))"
          from h a obtain i where i: "i < j" "optlike (snd ((x # xs) ! i))" by auto
          from i False x have "i \<noteq> 0" by (auto intro: ccontr)
          then obtain i' where i': "i = Suc i'" by (cases i) auto
          from i(1) obtain j' where j': "j = Suc j'" by (cases j) auto
          have "optlike (snd (xs ! j'))"
            using l j j' i i' by auto
          then show "optlike (snd ((x # xs) ! j))" using j' by simp
        qed
      next
        assume r: ?R
        show ?L
        proof (intro allI impI)
          fix j assume j: "j < length xs" and h: "\<exists>i < j. optlike (snd (xs ! i))"
          then obtain i where "i < j" "optlike (snd (xs ! i))" by auto
          then have "Suc i < Suc j" "optlike (snd ((x # xs) ! Suc i))" by auto
          then have "optlike (snd ((x # xs) ! Suc j))"
            using r j by (metis Suc_less_eq length_Cons)
          then show "optlike (snd (xs ! j))" by simp
        qed
      qed
      finally show ?thesis .
    qed
  qed
qed


lemma checkOptional_Some:
  assumes "checkOptional xs a nm = Some e"
  shows "\<exists>j < length xs. \<not> optlike (snd (xs ! j)) \<and>
           (\<forall>k < j. (a \<or> (\<exists>i < k. optlike (snd (xs ! i)))) \<longrightarrow> optlike (snd (xs ! k))) \<and>
           (\<exists>i. (\<not> a \<longrightarrow> i < j \<and> optlike (snd (xs ! i)) \<and> (\<forall>k < i. \<not> optlike (snd (xs ! k)))) \<and>
                e = TagError [] (Name (fst (xs ! j))) []
                      (msg_must_be_optional (if a then nm else Name (fst (xs ! i)))))"
  using assms
proof (induction xs arbitrary: a nm)
  case Nil
  then show ?case by simp
next
  case (Cons x xs)
  obtain f ts where x: "x = (f, ts)" by (cases x)
  show ?case
  proof (cases "optlike ts")
    case True
    then have "checkOptional xs True (if \<not> a then Name f else nm) = Some e"
      using Cons.prems by (simp add: x optlike_def)
    from Cons.IH [OF this] obtain j where j: "j < length xs" "\<not> optlike (snd (xs ! j))"
      "\<forall>k < j. optlike (snd (xs ! k))"
      "e = TagError [] (Name (fst (xs ! j))) [] (msg_must_be_optional (if \<not> a then Name f else nm))"
      by auto
    have k: "\<forall>k < Suc j. optlike (snd ((x # xs) ! k))"
    proof (intro allI impI)
      fix k assume "k < Suc j"
      then show "optlike (snd ((x # xs) ! k))" using j(3) True x by (cases k) auto
    qed
    have "(\<not> a \<longrightarrow> 0 < Suc j \<and> optlike (snd ((x # xs) ! 0)) \<and> (\<forall>k < 0. \<not> optlike (snd ((x # xs) ! k)))) \<and>
           e = TagError [] (Name (fst ((x # xs) ! Suc j))) []
                 (msg_must_be_optional (if a then nm else Name (fst ((x # xs) ! 0))))"
      using j(4) True x by auto
    then show ?thesis
      using j(1,2) k by (intro exI [of _ "Suc j"]) auto
  next
    case False
    show ?thesis
    proof (cases a)
      case True
      then have "e = TagError [] (Name f) [] (msg_must_be_optional nm)"
        using Cons.prems False by (simp add: x optlike_def)
      then show ?thesis
        using True False x by (intro exI [of _ 0]) auto
    next
      case a: False
      then have "checkOptional xs False nm = Some e"
        using Cons.prems False by (simp add: x optlike_def)
      from Cons.IH [OF this] obtain j i where j: "j < length xs" "\<not> optlike (snd (xs ! j))"
        "\<forall>k < j. (\<exists>i < k. optlike (snd (xs ! i))) \<longrightarrow> optlike (snd (xs ! k))"
        "i < j" "optlike (snd (xs ! i))" "\<forall>k < i. \<not> optlike (snd (xs ! k))"
        "e = TagError [] (Name (fst (xs ! j))) [] (msg_must_be_optional (Name (fst (xs ! i))))"
        by auto
      have k: "\<forall>k < Suc j. (a \<or> (\<exists>i < k. optlike (snd ((x # xs) ! i)))) \<longrightarrow> optlike (snd ((x # xs) ! k))"
      proof (intro allI impI)
        fix k assume k: "k < Suc j" and h: "a \<or> (\<exists>i < k. optlike (snd ((x # xs) ! i)))"
        from h a obtain i' where i': "i' < k" "optlike (snd ((x # xs) ! i'))" by auto
        from i' False x have "i' \<noteq> 0" by (auto intro: ccontr)
        then obtain i'' where "i' = Suc i''" by (cases i') auto
        moreover from i'(1) obtain k' where "k = Suc k'" by (cases k) auto
        ultimately show "optlike (snd ((x # xs) ! k))"
          using j(3) k i' by auto
      qed
      have l: "\<forall>k < Suc i. \<not> optlike (snd ((x # xs) ! k))"
      proof (intro allI impI)
        fix k assume "k < Suc i"
        then show "\<not> optlike (snd ((x # xs) ! k))"
          using j(6) False x by (cases k) auto
      qed
      have "(\<not> a \<longrightarrow> Suc i < Suc j \<and> optlike (snd ((x # xs) ! Suc i)) \<and>
               (\<forall>k < Suc i. \<not> optlike (snd ((x # xs) ! k)))) \<and>
           e = TagError [] (Name (fst ((x # xs) ! Suc j))) []
                 (msg_must_be_optional (if a then nm else Name (fst ((x # xs) ! Suc i))))"
        using j(4,5,7) l a by auto
      then show ?thesis
        using j(1,2) k by (intro exI [of _ "Suc j"]) (auto intro!: exI [of _ "Suc i"])
    qed
  qed
qed


lemma parseTag_loop_Tail:
  "parseTag_loop f lp toks ts0 = Inr ts \<Longrightarrow> Tail ts \<Longrightarrow> Tail ts0 \<or> Index f = lp"
proof (induction toks arbitrary: ts0)
  case Nil
  then show ?case by simp
next
  case (Cons t0 toks)
  let ?t = "TrimSpace t0"
  consider (skip) "?t = []" | (ign) "?t = ''-''"
    | (nil) "?t = ''nil'' \<or> ?t = ''nilString'' \<or> ?t = ''nilList''"
    | (opt) "?t = ''optional''" | (tail) "?t = ''tail''"
    | (other) "?t \<noteq> []" "?t \<noteq> ''-''" "?t \<noteq> ''nil''" "?t \<noteq> ''nilString''"
        "?t \<noteq> ''nilList''" "?t \<noteq> ''optional''" "?t \<noteq> ''tail''"
    by blast
  then show ?case
  proof cases
    case skip
    then show ?thesis using Cons by (simp add: Let_def)
  next
    case ign
    then have "parseTag_loop f lp toks (ts0\<lparr>Ignored := True\<rparr>) = Inr ts"
      using Cons.prems(1) by (simp add: Let_def)
    from Cons.IH [OF this Cons.prems(2)] show ?thesis by simp
  next
    case nil
    then obtain nk where "parseTag_loop f lp toks (ts0\<lparr>NilOK := True, NilKind := nk\<rparr>) = Inr ts"
      using Cons.prems(1) by (auto simp: Let_def split: if_splits option.splits)
    from Cons.IH [OF this Cons.prems(2)] show ?thesis by simp
  next
    case opt
    then have "parseTag_loop f lp toks (ts0\<lparr>Optional := True\<rparr>) = Inr ts"
      using Cons.prems(1) by (auto simp: Let_def split: if_splits)
    from Cons.IH [OF this Cons.prems(2)] show ?thesis by simp
  next
    case tail
    then show ?thesis
      using Cons.prems(1) by (auto simp: Let_def split: if_splits)
  next
    case other
    then show ?thesis using Cons.prems(1) by (simp add: Let_def)
  qed
qed

lemma parseTag_Tail: "parseTag f lp = Inr ts \<Longrightarrow> Tail ts \<Longrightarrow> Index f = lp"
  using parseTag_loop_Tail [of f lp "split_comma (Tag f)" noTags ts]
  by (simp add: parseTag_def noTags_def)

text \<open>
  The fields that the first loop keeps: exported, with a tag that parses and does not
  ignore the field.
\<close>

definition coded :: "nat \<Rightarrow> Field \<Rightarrow> bool" where
  "coded lp f \<longleftrightarrow> (case parseTag f lp of Inl e \<Rightarrow> False | Inr ts \<Rightarrow> \<not> Ignored ts)"

lemma collectFields_filter:
  "collectFields lp fs = Inr (flds, tags) \<Longrightarrow>
     flds = filter (coded lp) (filter Exported fs) \<and>
     length tags = length flds \<and>
     (\<forall>i < length flds. parseTag (flds ! i) lp = Inr (tags ! i))"
proof (induction fs arbitrary: flds tags)
  case Nil
  then show ?case by simp
next
  case (Cons f fs)
  show ?case
  proof (cases "Exported f")
    case False
    then have "collectFields lp fs = Inr (flds, tags)" using Cons.prems by simp
    from Cons.IH [OF this] show ?thesis using False by auto
  next
    case True
    then obtain ts where ts: "parseTag f lp = Inr ts"
      using Cons.prems by (cases "parseTag f lp") auto
    show ?thesis
    proof (cases "Ignored ts")
      case True
      then have "collectFields lp fs = Inr (flds, tags)"
        using Cons.prems \<open>Exported f\<close> ts by simp
      from Cons.IH [OF this] show ?thesis
        using True \<open>Exported f\<close> ts by (auto simp: coded_def)
    next
      case False
      then obtain flds' tags' where r: "collectFields lp fs = Inr (flds', tags')"
        "flds = f # flds'" "tags = ts # tags'"
        using Cons.prems \<open>Exported f\<close> ts by (auto split: sum.splits)
      from Cons.IH [OF r(1)] have ih: "flds' = filter (coded lp) (filter Exported fs)"
        "length tags' = length flds'" "\<forall>i < length flds'. parseTag (flds' ! i) lp = Inr (tags' ! i)"
        by auto
      have "\<forall>i < length flds. parseTag (flds ! i) lp = Inr (tags ! i)"
      proof (intro allI impI)
        fix i assume "i < length flds"
        then show "parseTag (flds ! i) lp = Inr (tags ! i)"
          using ih(3) r(2,3) ts by (cases i) auto
      qed
      then show ?thesis
        using ih(1,2) r(2,3) \<open>Exported f\<close> False ts by (simp add: coded_def)
    qed
  qed
qed

lemma lastPublicField_last:
  "filter Exported fs \<noteq> [] \<Longrightarrow> lastPublicField fs = Index (last (filter Exported fs))"
proof -
  have "foldl (\<lambda>last f. if Exported f then Index f else last) a fs =
          (if filter Exported fs = [] then a else Index (last (filter Exported fs)))" for a
    by (induction fs arbitrary: a) auto
  then show "filter Exported fs \<noteq> [] \<Longrightarrow> lastPublicField fs = Index (last (filter Exported fs))"
    by (simp add: lastPublicField_def)
qed

lemma last_filter_keeps: "xs \<noteq> [] \<Longrightarrow> P (last xs) \<Longrightarrow> last (filter P xs) = last xs"
proof (induction xs)
  case Nil
  then show ?case by simp
next
  case (Cons x xs)
  show ?case
  proof (cases "xs = []")
    case True
    then show ?thesis using Cons.prems by simp
  next
    case False
    then have "filter P xs \<noteq> []"
      using Cons.prems by (metis (mono_tags) last.simps filter_empty_conv last_in_set)
    then show ?thesis using Cons False by simp
  qed
qed

lemma tail_is_last:
  assumes c: "collectFields (lastPublicField fs) fs = Inr (flds, tags)"
    and d: "distinct (map Index fs)" and j: "j < length tags" and t: "Tail (tags ! j)"
  shows "Suc j = length tags"
proof -
  let ?lp = "lastPublicField fs"
  let ?ex = "filter Exported fs"
  from collectFields_filter [OF c]
  have f: "flds = filter (coded ?lp) ?ex" "length tags = length flds"
    "\<forall>i < length flds. parseTag (flds ! i) ?lp = Inr (tags ! i)" by auto
  have jf: "j < length flds" using j f(2) by simp
  then have mem: "flds ! j \<in> set flds" by simp
  then have memex: "flds ! j \<in> set ?ex" and cod: "coded ?lp (flds ! j)" using f(1) by auto
  from memex have ne: "?ex \<noteq> []" by (metis empty_iff list.set(1))
  have "Index (flds ! j) = ?lp"
    using parseTag_Tail [of "flds ! j" ?lp "tags ! j"] f(3) jf t by simp
  then have "Index (flds ! j) = Index (last ?ex)"
    using lastPublicField_last [OF ne] by simp
  moreover have "last ?ex \<in> set fs" using ne last_in_set [of ?ex] by auto
  moreover have "flds ! j \<in> set fs" using memex by auto
  ultimately have eq: "flds ! j = last ?ex"
    using d by (meson distinct_map inj_on_def)
  then have "coded ?lp (last ?ex)" using cod by simp
  then have "last flds = last ?ex"
    unfolding f(1) using ne by (intro last_filter_keeps)
  moreover have "flds \<noteq> []" using jf by auto
  then have "last flds = flds ! (length flds - 1)" by (rule last_conv_nth)
  ultimately have "flds ! j = flds ! (length flds - 1)"
    using eq by simp
  moreover have "distinct flds"
    using d f(1) by (simp add: distinct_map)
  ultimately have "j = length flds - 1"
    using jf by (simp add: nth_eq_iff_index_eq)
  then show ?thesis using jf f(2) by simp
qed


text \<open>A tag error of \<open>ProcessFields\<close> is the build error of writer and decoder alike.\<close>

lemma structFields_TagError:
  "ProcessFields (allStructFields sfs) = Inl (TagError st f t m) \<Longrightarrow>
   structFields gen (StructOf name sfs) = Inl (TagError name f t m)"
  by (simp add: structFields_def)

lemma build_TagError:
  assumes "ProcessFields (allStructFields sfs) = Inl (TagError st f t m)"
  shows "makeWriter (StructOf name sfs) ts = Inl (TagError name f t m)"
    and "makeDecoder (StructOf name sfs) ts = Inl (TagError name f t m)"
    and "Encode w (StructOf name sfs) v = Inl (TagError name f t m)"
    and "DecodeBytes pooled b (StructOf name sfs) = Inl (TagError name f t m)"
  by (simp_all add: structFields_TagError [OF assms] makeStructWriter_def makeStructDecoder_def Encode_def encBuffer_encode_def
      cachedWriter_def DecodeBytes_def Stream_Decode_def cachedDecoder_def)

text \<open>A struct whose required field \<open>Y\<close> follows the optional field \<open>X\<close>.\<close>

lemma collectFields_example:
  "collectFields (lastPublicField (allStructFields [StructField ''X'' [] (Prim reflect_Uint64) ''optional'', StructField ''Y'' [] (Prim reflect_Uint64) []])) (allStructFields [StructField ''X'' [] (Prim reflect_Uint64) ''optional'', StructField ''Y'' [] (Prim reflect_Uint64) []])
  = Inr ([\<lparr>Name = ''X'', Index = 0, Exported = True, Type = SType reflect_Uint64 False False None, Tag = ''optional''\<rparr>,
          \<lparr>Name = ''Y'', Index = 1, Exported = True, Type = SType reflect_Uint64 False False None, Tag = []\<rparr>],
         [noTags\<lparr>Optional := True\<rparr>, noTags])"
  by code_simp

section \<open>The claims\<close>

text \<open>
  C5. The encoders of unsigned integers, \<open>writeUint64\<close> of the encoding buffer and
  \<open>AppendUint64\<close>, produce the canonical bytes at the boundary points: 0 gives 80,
  127 gives 7F, 128 gives 81 80, 256 gives 82 01 00 and 1024 gives 82 04 00 (appended to
  the string data of the buffer, which is otherwise unchanged, and to the slice).
\<close>

theorem C5_uint_boundaries:
  "encBuffer_writeUint64 0 buf = buf\<lparr>str := str buf @ [0x80]\<rparr> \<and>
   encBuffer_writeUint64 127 buf = buf\<lparr>str := str buf @ [0x7F]\<rparr> \<and>
   encBuffer_writeUint64 128 buf = buf\<lparr>str := str buf @ [0x81, 0x80]\<rparr> \<and>
   encBuffer_writeUint64 256 buf = buf\<lparr>str := str buf @ [0x82, 0x01, 0x00]\<rparr> \<and>
   encBuffer_writeUint64 1024 buf = buf\<lparr>str := str buf @ [0x82, 0x04, 0x00]\<rparr> \<and>
   AppendUint64 b 0 = b @ [0x80] \<and>
   AppendUint64 b 127 = b @ [0x7F] \<and>
   AppendUint64 b 128 = b @ [0x81, 0x80] \<and>
   AppendUint64 b 256 = b @ [0x82, 0x01, 0x00] \<and>
   AppendUint64 b 1024 = b @ [0x82, 0x04, 0x00]"
  by (simp add: encBuffer_writeUint64_def putint_def AppendUint64_def)

text \<open>
  C9. The header of a string or list is the one-byte short form (the small tag plus the
  size) when the size is below 56, and otherwise the long form: the large tag plus
  the number of bytes of the size, then the size big-endian in as few bytes as it
  takes (it reads back as the size, has no leading zero byte and is of the length that
  256 to its power bounds). The length of the header is \<open>headsize\<close>, 1 below 56 and 1
  plus \<open>intsize\<close> from there on; \<open>encodeStringHeader\<close> appends this header with the
  string tags. A size of 55 gets one byte, a size of 56 two.
\<close>

theorem C9_header_forms:
  "(sz < 56 \<longrightarrow> puthead smalltag largetag sz = [smalltag + ucast sz]) \<and>
   (\<not> sz < 56 \<longrightarrow>
      puthead smalltag largetag sz = (largetag + of_nat (length (putint sz))) # putint sz \<and>
      be_uint64 (putint sz) = sz \<and> hd (putint sz) \<noteq> 0 \<and>
      unat sz < 256 ^ length (putint sz) \<and> 256 ^ (length (putint sz) - 1) \<le> unat sz) \<and>
   int (length (puthead smalltag largetag sz)) = headsize sz \<and>
   headsize sz = (if sz < 56 then 1 else 1 + intsize sz) \<and>
   intsize sz = int (length (putint sz)) \<and>
   (n < 2 ^ 63 \<longrightarrow>
      encBuffer_encodeStringHeader n buf = buf\<lparr>str := str buf @ puthead 0x80 0xB7 (of_nat n)\<rparr>) \<and>
   puthead 0x80 0xB7 55 = [0xB7] \<and> puthead 0x80 0xB7 56 = [0xB8, 56] \<and>
   puthead 0xC0 0xF7 55 = [0xF7] \<and> puthead 0xC0 0xF7 56 = [0xF8, 56] \<and>
   headsize 55 = 1 \<and> headsize 56 = 2"
proof -
  have a: "sz < 56 \<longrightarrow> puthead smalltag largetag sz = [smalltag + ucast sz]"
    by (simp add: puthead_def)
  have b: "\<not> sz < 56 \<longrightarrow>
      puthead smalltag largetag sz = (largetag + of_nat (length (putint sz))) # putint sz \<and>
      be_uint64 (putint sz) = sz \<and> hd (putint sz) \<noteq> 0 \<and>
      unat sz < 256 ^ length (putint sz) \<and> 256 ^ (length (putint sz) - 1) \<le> unat sz"
  proof
    assume "\<not> sz < 56"
    then have nz: "sz \<noteq> 0" by auto
    then have "0 < unat sz" by (simp add: unat_gt_0)
    then show "puthead smalltag largetag sz = (largetag + of_nat (length (putint sz))) # putint sz \<and>
      be_uint64 (putint sz) = sz \<and> hd (putint sz) \<noteq> 0 \<and>
      unat sz < 256 ^ length (putint sz) \<and> 256 ^ (length (putint sz) - 1) \<le> unat sz"
      using \<open>\<not> sz < 56\<close> nbytes_bounds [of "unat sz"] hd_putint_nonzero [OF nz]
      by (simp add: puthead_def Let_def be_uint64_putint length_putint)
  qed
  have c: "int (length (puthead smalltag largetag sz)) = headsize sz"
    by (rule length_puthead)
  have d: "headsize sz = (if sz < 56 then 1 else 1 + intsize sz)"
    by (simp add: headsize_def)
  have e: "intsize sz = int (length (putint sz))"
    by (simp add: intsize_nbytes length_putint)
  have f: "n < 2 ^ 63 \<longrightarrow>
      encBuffer_encodeStringHeader n buf = buf\<lparr>str := str buf @ puthead 0x80 0xB7 (of_nat n)\<rparr>"
  proof
    assume n: "n < 2 ^ 63"
    then have u: "unat (of_nat n :: uint64) = n" by (simp add: unat_of_nat64)
    then have lt: "(of_nat n :: uint64) < 56 \<longleftrightarrow> n < 56"
      by (simp add: word_less_nat_alt)
    have "n < 56 \<Longrightarrow> (ucast (of_nat n :: uint64) :: byte) = of_nat n"
      by (simp add: word_unat_eq_iff unsigned_ucast_eq u unat_of_nat take_bit_nat_eq_self)
    then show "encBuffer_encodeStringHeader n buf =
        buf\<lparr>str := str buf @ puthead 0x80 0xB7 (of_nat n)\<rparr>"
      by (simp add: encBuffer_encodeStringHeader_def puthead_def Let_def lt)
  qed
  have g: "puthead 0x80 0xB7 55 = [0xB7] \<and> puthead 0x80 0xB7 56 = [0xB8, 56] \<and>
   puthead 0xC0 0xF7 55 = [0xF7] \<and> puthead 0xC0 0xF7 56 = [0xF8, 56] \<and>
   headsize 55 = 1 \<and> headsize 56 = 2"
    by (simp add: puthead_def putint_def headsize_def intsize_nbytes nbytes.simps)
  from a b c d e f g show ?thesis by blast
qed

theorem C9_header_forms_witness:
  "puthead 0x80 0xB7 3 = [0x83] \<and>
   puthead 0xC0 0xF7 1024 = [0xF9, 0x04, 0x00] \<and>
   be_uint64 (putint 1024) = 1024 \<and> hd (putint 1024) \<noteq> 0 \<and>
   unat (1024 :: uint64) < 256 ^ length (putint 1024) \<and>
   256 ^ (length (putint 1024) - 1) \<le> unat (1024 :: uint64) \<and>
   headsize 1024 = 3 \<and>
   encBuffer_encodeStringHeader 56 getEncBuffer = getEncBuffer\<lparr>str := [0xB8, 56]\<rparr>"
  using C9_header_forms [of 3 "0x80" "0xB7" 0 getEncBuffer]
    C9_header_forms [of 1024 "0xC0" "0xF7" 56 getEncBuffer]
  by (simp add: putint_def getEncBuffer_def puthead_def)

text \<open>
  C3. The two bytes 81 NN with NN below 80 (a single byte dressed as a one-byte string)
  are rejected. On a stream that starts on this input (new or reset from the pool,
  with no input limit or one of at least the two bytes) \<open>Bytes\<close>, \<open>ReadBytes\<close> and the
  integer readers fail, and so do \<open>readKind\<close>, \<open>Split\<close> and \<open>SplitString\<close> of the raw
  values. The error is \<open>ErrCanonSize\<close>, "non-canonical size information": the code has
  one error value for this and for a non-canonical size field.
\<close>

theorem C3_single_byte_string_rejected:
  assumes nn: "nn < 0x80" and lim: "lim = 0 \<or> 2 \<le> lim"
    and bits: "maxbits = 8 \<or> maxbits = 16 \<or> maxbits = 32 \<or> maxbits = 64"
  shows "fst (Stream_Bytes (Reset [0x81, nn] sized lim pooled)) = Inl ErrCanonSize \<and>
         fst (Stream_ReadBytes 1 (Reset [0x81, nn] sized lim pooled)) = Inl ErrCanonSize \<and>
         fst (Stream_uint maxbits (Reset [0x81, nn] sized lim pooled)) = Inl ErrCanonSize \<and>
         raw_readKind [0x81, nn] = Inl ErrCanonSize \<and>
         Split [0x81, nn] = (Inl ErrCanonSize, [0x81, nn]) \<and>
         SplitString [0x81, nn] = (Inl ErrCanonSize, [0x81, nn])"
proof -
  let ?s = "Reset [0x81, nn] sized lim pooled"
  define s2 where "s2 = after_kind (Suc 0) String 1 0 [nn] ?s"
  have "lim = 0 \<or> 2 \<le> unat lim"
    using lim by (auto simp: word_le_nat_alt)
  then have c: "can_read (Suc (Suc 0)) ?s"
    by (intro can_read_Reset) auto
  have k: "Stream_Kind ?s = ((String, 1, None), s2)"
    using Kind_short [of ?s "0x81" "[nn]" 1 String] c by (simp add: s2_def)
  have c2: "can_read (Suc 0) s2"
    using can_read_add [of "Suc 0" "Suc 0" ?s] c by (simp add: s2_def)
  have rf: "readFull 1 s2 = (Inr [nn], (after_read (Suc 0) s2)\<lparr>reader := []\<rparr>)"
    using readFull_ok [OF c2, of "[nn]" "[]"] by (simp add: s2_def)
  have rb: "readByte s2 = (Inr nn, (after_read (Suc 0) s2)\<lparr>reader := []\<rparr>)"
    using readByte_ok [of s2 nn "[]"] c2 by (simp add: s2_def)
  have nn64: "(ucast nn :: uint64) < 128"
    using nn by (simp add: word_less_nat_alt unat_ucast_byte)
  have a: "fst (Stream_Bytes ?s) = Inl ErrCanonSize"
    using nn by (simp add: Stream_Bytes_def k rf)
  have b: "fst (Stream_ReadBytes 1 ?s) = Inl ErrCanonSize"
    using nn by (simp add: Stream_ReadBytes_def k rf)
  have c: "fst (Stream_uint maxbits ?s) = Inl ErrCanonSize"
    using bits nn64 by (auto simp: Stream_uint_def k readUint_def rb)
  have d: "raw_readKind [0x81, nn] = Inl ErrCanonSize"
    using nn by (simp add: raw_readKind_def)
  have e: "Split [0x81, nn] = (Inl ErrCanonSize, [0x81, nn])"
    by (simp add: Split_def d)
  have f: "SplitString [0x81, nn] = (Inl ErrCanonSize, [0x81, nn])"
    by (simp add: SplitString_def e)
  from a b c d e f show ?thesis by simp
qed

theorem C3_single_byte_string_rejected_witness:
  "fst (Stream_Bytes (NewStream [0x81, 0x01] False 0)) = Inl ErrCanonSize \<and>
   fst (Stream_ReadBytes 1 (NewStream [0x81, 0x01] False 0)) = Inl ErrCanonSize \<and>
   fst (Stream_uint 64 (NewStream [0x81, 0x01] False 0)) = Inl ErrCanonSize \<and>
   raw_readKind [0x81, 0x01] = Inl ErrCanonSize \<and>
   Split [0x81, 0x01] = (Inl ErrCanonSize, [0x81, 0x01]) \<and>
   SplitString [0x81, 0x01] = (Inl ErrCanonSize, [0x81, 0x01])"
  using C3_single_byte_string_rejected [of "0x01" 0 64 False zeroStream]
  by (simp add: NewStream_def)


text \<open>
  C4. A long-form header (tag B8 to BF or F8 to FF, followed by as many bytes of size as
  the tag says) whose size is below 56 or whose size field starts with a zero byte is
  rejected with \<open>ErrCanonSize\<close>: by \<open>Kind\<close> and with it \<open>Bytes\<close>, \<open>List\<close> and the integer
  readers of a stream that starts on the input (with no limit or one that leaves room
  for the header), and by \<open>readKind\<close> and \<open>Split\<close> of the raw values. The input B8 00 is
  the instance of the second theorem.
\<close>

theorem C4_noncanonical_size_rejected:
  assumes n: "1 \<le> length lb" "length lb \<le> 8"
    and tag: "tag = 0xB7 + of_nat (length lb) \<or> tag = 0xF7 + of_nat (length lb)"
    and bad: "be_uint64 lb < 56 \<or> hd lb = 0"
    and lim: "lim = 0 \<or> length lb < unat lim"
    and len: "length (tag # lb @ rest) < 2 ^ 64"
  shows "snd (snd (fst (Stream_Kind (Reset (tag # lb @ rest) sized lim pooled)))) = Some ErrCanonSize \<and>
         fst (Stream_Bytes (Reset (tag # lb @ rest) sized lim pooled)) = Inl ErrCanonSize \<and>
         fst (Stream_List (Reset (tag # lb @ rest) sized lim pooled)) = Inl ErrCanonSize \<and>
         fst (Stream_uint 64 (Reset (tag # lb @ rest) sized lim pooled)) = Inl ErrCanonSize \<and>
         raw_readKind (tag # lb @ rest) = Inl ErrCanonSize \<and>
         Split (tag # lb @ rest) = (Inl ErrCanonSize, tag # lb @ rest)"
proof -
  let ?s = "Reset (tag # lb @ rest) sized lim pooled"
  have c: "can_read (Suc (length lb)) ?s"
    using lim len by (intro can_read_Reset) auto
  obtain kd sz s' where k: "Stream_Kind ?s = ((kd, sz, Some ErrCanonSize), s')"
    using Kind_long_bad [OF n refl _ _ c tag bad, of rest] by auto
  have raw: "raw_readKind (tag # lb @ rest) = Inl ErrCanonSize"
    using tag readSize_bad [OF n bad, of rest] n
    by (auto simp: raw_readKind_def Let_def long_tag_facts [OF n])
  have "Split (tag # lb @ rest) = (Inl ErrCanonSize, tag # lb @ rest)"
    by (simp add: Split_def raw)
  then show ?thesis
    using Stream_errors_of_Kind [OF k] raw by (simp add: k)
qed

theorem C4_noncanonical_size_rejected_witness:
  "snd (snd (fst (Stream_Kind (NewStream [0xB8, 0x00] False 0)))) = Some ErrCanonSize \<and>
   fst (Stream_Bytes (NewStream [0xB8, 0x00] False 0)) = Inl ErrCanonSize \<and>
   fst (Stream_List (NewStream [0xB8, 0x00] False 0)) = Inl ErrCanonSize \<and>
   fst (Stream_uint 64 (NewStream [0xB8, 0x00] False 0)) = Inl ErrCanonSize \<and>
   raw_readKind [0xB8, 0x00] = Inl ErrCanonSize \<and>
   Split [0xB8, 0x00] = (Inl ErrCanonSize, [0xB8, 0x00])"
  using C4_noncanonical_size_rejected [of "[0x00]" "0xB8" 0 "[]" False zeroStream]
  by (simp add: NewStream_def be_uint64_def)



text \<open>
  C2. The stream keeps one counter per open list. In a stream inside a list (counter
  \<open>cnt\<close> for the innermost list, \<open>rest\<close> for the lists around it): when \<open>List\<close> succeeds
  with size \<open>S\<close>, the counter left by reading the header gives up \<open>S\<close> (in 64-bit
  arithmetic) and \<open>S\<close> is pushed on top of it; a read of \<open>n\<close> bytes takes \<open>n\<close> off the
  counter when \<open>n\<close> is at most the counter and fails with \<open>ErrElemTooLarge\<close>, leaving the
  counters alone, when it is more; \<open>ListEnd\<close> fails with \<open>errNotAtEOL\<close> as long as the
  counter is not zero and pops it when it is.
\<close>

theorem C2_list_counters:
  assumes st: "stack s = cnt # rest"
  shows "(Stream_List s = (Inr S, s') \<longrightarrow>
            (\<exists>p. stack (snd (Stream_Kind s)) = p # rest \<and> stack s' = S # (p - S) # rest)) \<and>
         (n \<le> cnt \<longrightarrow> stack (snd (willRead n s)) = (cnt - n) # rest) \<and>
         (n > cnt \<longrightarrow> willRead n s = (Some ErrElemTooLarge, s\<lparr>kind := None\<rparr>)) \<and>
         (readFull n s = (Inr bs, s'') \<longrightarrow> length bs = unat n \<and> stack s'' = (cnt - n) # rest) \<and>
         (n > cnt \<longrightarrow> fst (readFull n s) = Inl ErrElemTooLarge) \<and>
         (readByte s = (Inr b, s''') \<longrightarrow> stack s''' = (cnt - 1) # rest) \<and>
         (cnt = 0 \<longrightarrow> fst (readByte s) = Inl ErrElemTooLarge) \<and>
         (cnt \<noteq> 0 \<longrightarrow> Stream_ListEnd s = (Some errNotAtEOL, s)) \<and>
         (cnt = 0 \<longrightarrow> Stream_ListEnd s = (None, s\<lparr>stack := rest, kind := None, vsize := 0\<rparr>))"
proof -
  have a: "Stream_List s = (Inr S, s') \<longrightarrow>
            (\<exists>p. stack (snd (Stream_Kind s)) = p # rest \<and> stack s' = S # (p - S) # rest)"
  proof
    assume l: "Stream_List s = (Inr S, s')"
    obtain k sz e s1 where k: "Stream_Kind s = ((k, sz, e), s1)"
      by (metis prod.exhaust)
    obtain p where p: "stack s1 = p # rest"
      using Stream_Kind_stack_tail [OF st] k by auto
    show "\<exists>p. stack (snd (Stream_Kind s)) = p # rest \<and> stack s' = S # (p - S) # rest"
      using l k p by (cases e) (auto simp: Stream_List_def Let_def split: if_splits)
  qed
  have b: "n \<le> cnt \<longrightarrow> stack (snd (willRead n s)) = (cnt - n) # rest"
    using st by (auto simp: willRead_def Let_def)
  have c: "n > cnt \<longrightarrow> willRead n s = (Some ErrElemTooLarge, s\<lparr>kind := None\<rparr>)"
    using st by (auto simp: willRead_def Let_def)
  have d: "readFull n s = (Inr bs, s'') \<longrightarrow> length bs = unat n \<and> stack s'' = (cnt - n) # rest"
    using st by (auto simp: readFull_def willRead_def Let_def split: if_splits)
  have e: "n > cnt \<longrightarrow> fst (readFull n s) = Inl ErrElemTooLarge"
    using c by (auto simp: readFull_def)
  have f: "readByte s = (Inr b, s''') \<longrightarrow> stack s''' = (cnt - 1) # rest"
    using st by (auto simp: readByte_def willRead_def Let_def split: if_splits list.splits)
  have g: "cnt = 0 \<longrightarrow> fst (readByte s) = Inl ErrElemTooLarge"
    using st by (auto simp: readByte_def willRead_def Let_def)
  have h: "cnt \<noteq> 0 \<longrightarrow> Stream_ListEnd s = (Some errNotAtEOL, s)"
    using st by (auto simp: Stream_ListEnd_def word_gt_0)
  have i: "cnt = 0 \<longrightarrow> Stream_ListEnd s = (None, s\<lparr>stack := rest, kind := None, vsize := 0\<rparr>)"
    using st by (auto simp: Stream_ListEnd_def)
  from a b c d e f g h i show ?thesis by blast
qed


theorem C2_list_counters_witness:
  "stack (snd (Stream_List
      \<lparr>reader = [0xC1, 0x05], remaining = 0, vsize = 0, kinderr = None, stack = [3],
       kind = None, byteval = 0, limited = False\<rparr>)) = [1, 1] \<and>
   stack (snd (willRead 2
      \<lparr>reader = [0xC1, 0x05], remaining = 0, vsize = 0, kinderr = None, stack = [3],
       kind = None, byteval = 0, limited = False\<rparr>)) = [1] \<and>
   fst (willRead 5
      \<lparr>reader = [0xC1, 0x05], remaining = 0, vsize = 0, kinderr = None, stack = [3],
       kind = None, byteval = 0, limited = False\<rparr>) = Some ErrElemTooLarge \<and>
   fst (readFull 5
      \<lparr>reader = [0xC1, 0x05], remaining = 0, vsize = 0, kinderr = None, stack = [3],
       kind = None, byteval = 0, limited = False\<rparr>) = Inl ErrElemTooLarge \<and>
   stack (snd (readFull 2
      \<lparr>reader = [0xC1, 0x05], remaining = 0, vsize = 0, kinderr = None, stack = [3],
       kind = None, byteval = 0, limited = False\<rparr>)) = [1] \<and>
   fst (Stream_ListEnd
      \<lparr>reader = [0xC1, 0x05], remaining = 0, vsize = 0, kinderr = None, stack = [3],
       kind = None, byteval = 0, limited = False\<rparr>) = Some errNotAtEOL \<and>
   Stream_ListEnd
      \<lparr>reader = [], remaining = 0, vsize = 0, kinderr = None, stack = [0, 7],
       kind = None, byteval = 0, limited = False\<rparr> =
     (None, \<lparr>reader = [], remaining = 0, vsize = 0, kinderr = None, stack = [7],
       kind = None, byteval = 0, limited = False\<rparr>)"
proof -
  let ?s = "\<lparr>reader = [0xC1, 0x05], remaining = 0, vsize = 0, kinderr = None, stack = [3],
       kind = None, byteval = 0, limited = False\<rparr>"
  let ?t = "\<lparr>reader = [], remaining = 0, vsize = 0, kinderr = None, stack = [0, 7],
       kind = None, byteval = 0, limited = False\<rparr>"
  have l: "Stream_List ?s = (Inr 1, \<lparr>reader = [0x05], remaining = 0, vsize = 0, kinderr = None,
       stack = [1, 1], kind = None, byteval = 0, limited = False\<rparr>)"
    by (simp add: Stream_List_def Stream_Kind_def listLimit_def readKind_def readByte_def
        willRead_def Let_def)
  have rf: "readFull 2 ?s = (Inr [0xC1, 0x05], \<lparr>reader = [], remaining = 0, vsize = 0,
       kinderr = None, stack = [1], kind = None, byteval = 0, limited = False\<rparr>)"
    by (simp add: readFull_def willRead_def Let_def)
  note t1 = C2_list_counters [of ?s 3 "[]" 1 _ 2 "[0xC1, 0x05]", simplified l rf]
  note t2 = C2_list_counters [of ?s 3 "[]" 1 _ 5]
  note t3 = C2_list_counters [of ?t 0 "[7]"]
  show ?thesis
    using t1 t2 t3 by (simp add: l rf)
qed


text \<open>
  C7. Take a list of struct fields whose tags all parse, \<open>flds\<close> and \<open>tags\<close> being the
  exported fields that are not ignored and their tags. \<open>ProcessFields\<close> returns them if
  and only if every field after a field tagged \<open>optional\<close> (or \<open>tail\<close>) is tagged
  \<open>optional\<close> or \<open>tail\<close>. Otherwise it fails with a \<open>TagError\<close> that names the first field
  that breaks this (and, in its message, the first optional field), and for a struct
  type with these fields the same error, now with the name of the struct type, is the
  build error of the writer and of the decoder, and so the result of \<open>Encode\<close> and of
  \<open>DecodeBytes\<close>. When the fields have distinct indices, as the fields of a struct have, a
  field tagged \<open>tail\<close> is the last one.
\<close>

theorem C7_optional_order:
  assumes parsed: "collectFields (lastPublicField fs) fs = Inr (flds, tags)"
  shows
    "(ProcessFields fs = Inr (flds, tags) \<longleftrightarrow>
        (\<forall>i j. i < j \<and> j < length tags \<and> (Optional (tags ! i) \<or> Tail (tags ! i)) \<longrightarrow>
               Optional (tags ! j) \<or> Tail (tags ! j))) \<and>
     (ProcessFields fs \<noteq> Inr (flds, tags) \<longrightarrow>
        (\<exists>i j. i < j \<and> j < length flds \<and> (Optional (tags ! i) \<or> Tail (tags ! i)) \<and>
               \<not> Optional (tags ! j) \<and> \<not> Tail (tags ! j) \<and>
               (\<forall>k. i < k \<and> k < j \<longrightarrow> Optional (tags ! k) \<or> Tail (tags ! k)) \<and>
               ProcessFields fs =
                 Inl (TagError [] (Name (flds ! j)) [] (msg_must_be_optional (Name (flds ! i)))) \<and>
               (fs = allStructFields sfs \<longrightarrow>
                  makeWriter (StructOf name sfs) ts =
                    Inl (TagError name (Name (flds ! j)) [] (msg_must_be_optional (Name (flds ! i)))) \<and>
                  makeDecoder (StructOf name sfs) ts =
                    Inl (TagError name (Name (flds ! j)) [] (msg_must_be_optional (Name (flds ! i)))) \<and>
                  Encode w (StructOf name sfs) v =
                    Inl (TagError name (Name (flds ! j)) [] (msg_must_be_optional (Name (flds ! i)))) \<and>
                  DecodeBytes pooled b (StructOf name sfs) =
                    Inl (TagError name (Name (flds ! j)) [] (msg_must_be_optional (Name (flds ! i))))))) \<and>
     (distinct (map Index fs) \<longrightarrow> (\<forall>j < length tags. Tail (tags ! j) \<longrightarrow> Suc j = length tags))"
proof -
  let ?xs = "zip flds tags"
  have len: "length tags = length flds"
    using collectFields_filter [OF parsed] by simp
  have nth: "\<And>i. i < length flds \<Longrightarrow> snd (?xs ! i) = tags ! i \<and> fst (?xs ! i) = flds ! i"
    using len by simp
  have lx: "length ?xs = length flds" using len by simp
  have pf: "ProcessFields fs =
      (case checkOptional ?xs False [] of Some err \<Rightarrow> Inl err | None \<Rightarrow> Inr (flds, tags))"
    using parsed by (simp add: ProcessFields_def Let_def)
  have a: "ProcessFields fs = Inr (flds, tags) \<longleftrightarrow>
        (\<forall>i j. i < j \<and> j < length tags \<and> (Optional (tags ! i) \<or> Tail (tags ! i)) \<longrightarrow>
               Optional (tags ! j) \<or> Tail (tags ! j))"
  proof -
    have "ProcessFields fs = Inr (flds, tags) \<longleftrightarrow> checkOptional ?xs False [] = None"
      by (simp add: pf split: option.splits)
    also have "\<dots> \<longleftrightarrow> (\<forall>j < length ?xs. (\<exists>i < j. optlike (snd (?xs ! i))) \<longrightarrow> optlike (snd (?xs ! j)))"
      by (simp add: checkOptional_None)
    also have "\<dots> \<longleftrightarrow> (\<forall>i j. i < j \<and> j < length tags \<and> optlike (tags ! i) \<longrightarrow> optlike (tags ! j))"
      using len by auto
    finally show ?thesis by (simp add: optlike_def)
  qed
  have b: "ProcessFields fs \<noteq> Inr (flds, tags) \<longrightarrow>
        (\<exists>i j. i < j \<and> j < length flds \<and> (Optional (tags ! i) \<or> Tail (tags ! i)) \<and>
               \<not> Optional (tags ! j) \<and> \<not> Tail (tags ! j) \<and>
               (\<forall>k. i < k \<and> k < j \<longrightarrow> Optional (tags ! k) \<or> Tail (tags ! k)) \<and>
               ProcessFields fs =
                 Inl (TagError [] (Name (flds ! j)) [] (msg_must_be_optional (Name (flds ! i)))) \<and>
               (fs = allStructFields sfs \<longrightarrow>
                  makeWriter (StructOf name sfs) ts =
                    Inl (TagError name (Name (flds ! j)) [] (msg_must_be_optional (Name (flds ! i)))) \<and>
                  makeDecoder (StructOf name sfs) ts =
                    Inl (TagError name (Name (flds ! j)) [] (msg_must_be_optional (Name (flds ! i)))) \<and>
                  Encode w (StructOf name sfs) v =
                    Inl (TagError name (Name (flds ! j)) [] (msg_must_be_optional (Name (flds ! i)))) \<and>
                  DecodeBytes pooled b (StructOf name sfs) =
                    Inl (TagError name (Name (flds ! j)) [] (msg_must_be_optional (Name (flds ! i))))))"
  proof
    assume "ProcessFields fs \<noteq> Inr (flds, tags)"
    then obtain e where e: "checkOptional ?xs False [] = Some e" "ProcessFields fs = Inl e"
      by (auto simp: pf split: option.splits)
    from checkOptional_Some [OF e(1)] obtain j i where ji: "j < length ?xs"
      "\<not> optlike (snd (?xs ! j))"
      "\<forall>k < j. (\<exists>i < k. optlike (snd (?xs ! i))) \<longrightarrow> optlike (snd (?xs ! k))"
      "i < j" "optlike (snd (?xs ! i))"
      "e = TagError [] (Name (fst (?xs ! j))) [] (msg_must_be_optional (Name (fst (?xs ! i))))"
      by auto
    have jl: "j < length flds" and il: "i < length flds" using ji(1,4) lx by auto
    have e': "e = TagError [] (Name (flds ! j)) [] (msg_must_be_optional (Name (flds ! i)))"
      using ji(6) nth [OF jl] nth [OF il] by simp
    have mid: "\<forall>k. i < k \<and> k < j \<longrightarrow> Optional (tags ! k) \<or> Tail (tags ! k)"
    proof (intro allI impI)
      fix k assume k: "i < k \<and> k < j"
      then have "k < length flds" using jl by simp
      moreover have "optlike (snd (?xs ! k))" using ji(3,5) k by blast
      ultimately show "Optional (tags ! k) \<or> Tail (tags ! k)"
        using nth [of k] by (simp add: optlike_def)
    qed
    have oi: "Optional (tags ! i) \<or> Tail (tags ! i)"
      using ji(5) nth [OF il] by (simp add: optlike_def)
    have nj: "\<not> Optional (tags ! j) \<and> \<not> Tail (tags ! j)"
      using ji(2) nth [OF jl] by (simp add: optlike_def)
    have bld: "fs = allStructFields sfs \<longrightarrow>
                  makeWriter (StructOf name sfs) ts = Inl (TagError name (Name (flds ! j)) []
                    (msg_must_be_optional (Name (flds ! i)))) \<and>
                  makeDecoder (StructOf name sfs) ts = Inl (TagError name (Name (flds ! j)) []
                    (msg_must_be_optional (Name (flds ! i)))) \<and>
                  Encode w (StructOf name sfs) v = Inl (TagError name (Name (flds ! j)) []
                    (msg_must_be_optional (Name (flds ! i)))) \<and>
                  DecodeBytes pooled b (StructOf name sfs) = Inl (TagError name (Name (flds ! j)) []
                    (msg_must_be_optional (Name (flds ! i))))"
    proof
      assume "fs = allStructFields sfs"
      then have "ProcessFields (allStructFields sfs) =
          Inl (TagError [] (Name (flds ! j)) [] (msg_must_be_optional (Name (flds ! i))))"
        using e(2) e' by simp
      from build_TagError [OF this]
      show "makeWriter (StructOf name sfs) ts = Inl (TagError name (Name (flds ! j)) []
                    (msg_must_be_optional (Name (flds ! i)))) \<and>
                  makeDecoder (StructOf name sfs) ts = Inl (TagError name (Name (flds ! j)) []
                    (msg_must_be_optional (Name (flds ! i)))) \<and>
                  Encode w (StructOf name sfs) v = Inl (TagError name (Name (flds ! j)) []
                    (msg_must_be_optional (Name (flds ! i)))) \<and>
                  DecodeBytes pooled b (StructOf name sfs) = Inl (TagError name (Name (flds ! j)) []
                    (msg_must_be_optional (Name (flds ! i))))"
        by simp
    qed
    show "\<exists>i j. i < j \<and> j < length flds \<and> (Optional (tags ! i) \<or> Tail (tags ! i)) \<and>
               \<not> Optional (tags ! j) \<and> \<not> Tail (tags ! j) \<and>
               (\<forall>k. i < k \<and> k < j \<longrightarrow> Optional (tags ! k) \<or> Tail (tags ! k)) \<and>
               ProcessFields fs =
                 Inl (TagError [] (Name (flds ! j)) [] (msg_must_be_optional (Name (flds ! i)))) \<and>
               (fs = allStructFields sfs \<longrightarrow>
                  makeWriter (StructOf name sfs) ts =
                    Inl (TagError name (Name (flds ! j)) [] (msg_must_be_optional (Name (flds ! i)))) \<and>
                  makeDecoder (StructOf name sfs) ts =
                    Inl (TagError name (Name (flds ! j)) [] (msg_must_be_optional (Name (flds ! i)))) \<and>
                  Encode w (StructOf name sfs) v =
                    Inl (TagError name (Name (flds ! j)) [] (msg_must_be_optional (Name (flds ! i)))) \<and>
                  DecodeBytes pooled b (StructOf name sfs) =
                    Inl (TagError name (Name (flds ! j)) [] (msg_must_be_optional (Name (flds ! i)))))"
      using ji(4) jl oi nj mid e(2) e' bld by blast
  qed
  have c: "distinct (map Index fs) \<longrightarrow> (\<forall>j < length tags. Tail (tags ! j) \<longrightarrow> Suc j = length tags)"
    using tail_is_last [OF parsed] by blast
  from a b c show ?thesis by blast
qed

theorem C7_optional_order_witness:
  "ProcessFields (allStructFields [StructField ''X'' [] (Prim reflect_Uint64) ''optional'',
       StructField ''Y'' [] (Prim reflect_Uint64) []]) =
     Inl (TagError [] ''Y'' [] (msg_must_be_optional ''X'')) \<and>
   makeWriter (StructOf ''T'' [StructField ''X'' [] (Prim reflect_Uint64) ''optional'',
       StructField ''Y'' [] (Prim reflect_Uint64) []]) noTags =
     Inl (TagError ''T'' ''Y'' [] (msg_must_be_optional ''X'')) \<and>
   makeDecoder (StructOf ''T'' [StructField ''X'' [] (Prim reflect_Uint64) ''optional'',
       StructField ''Y'' [] (Prim reflect_Uint64) []]) noTags =
     Inl (TagError ''T'' ''Y'' [] (msg_must_be_optional ''X'')) \<and>
   Encode [] (StructOf ''T'' [StructField ''X'' [] (Prim reflect_Uint64) ''optional'',
       StructField ''Y'' [] (Prim reflect_Uint64) []]) (VStruct [VUint 1, VUint 2]) =
     Inl (TagError ''T'' ''Y'' [] (msg_must_be_optional ''X'')) \<and>
   DecodeBytes zeroStream [0xC2, 1, 2] (StructOf ''T'' [StructField ''X'' [] (Prim reflect_Uint64) ''optional'',
       StructField ''Y'' [] (Prim reflect_Uint64) []]) =
     Inl (TagError ''T'' ''Y'' [] (msg_must_be_optional ''X''))"
proof -
  let ?S = "[StructField ''X'' [] (Prim reflect_Uint64) ''optional'',
       StructField ''Y'' [] (Prim reflect_Uint64) []]"
  let ?flds = "[\<lparr>Name = ''X'', Index = 0, Exported = True, Type = SType reflect_Uint64 False False None, Tag = ''optional''\<rparr>,
          \<lparr>Name = ''Y'', Index = 1, Exported = True, Type = SType reflect_Uint64 False False None, Tag = []\<rparr>]"
  let ?tags = "[noTags\<lparr>Optional := True\<rparr>, noTags]"
  note th = C7_optional_order [OF collectFields_example, of ?S "''T''" noTags "[]" "VStruct [VUint 1, VUint 2]" zeroStream "[0xC2, 1, 2]"]
  have "\<not> (\<forall>i j. i < j \<and> j < length ?tags \<and> (Optional (?tags ! i) \<or> Tail (?tags ! i)) \<longrightarrow>
               Optional (?tags ! j) \<or> Tail (?tags ! j))"
    by (simp add: noTags_def) (rule exI [of _ 0], rule exI [of _ 1], simp)
  with th have ne: "ProcessFields (allStructFields ?S) \<noteq> Inr (?flds, ?tags)"
    by blast
  with th obtain i j where ij: "i < j" "j < length ?flds" "Optional (?tags ! i) \<or> Tail (?tags ! i)"
     "ProcessFields (allStructFields ?S) = Inl (TagError [] (Name (?flds ! j)) [] (msg_must_be_optional (Name (?flds ! i))))"
     "makeWriter (StructOf ''T'' ?S) noTags = Inl (TagError ''T'' (Name (?flds ! j)) [] (msg_must_be_optional (Name (?flds ! i))))"
     "makeDecoder (StructOf ''T'' ?S) noTags = Inl (TagError ''T'' (Name (?flds ! j)) [] (msg_must_be_optional (Name (?flds ! i))))"
     "Encode [] (StructOf ''T'' ?S) (VStruct [VUint 1, VUint 2]) = Inl (TagError ''T'' (Name (?flds ! j)) [] (msg_must_be_optional (Name (?flds ! i))))"
     "DecodeBytes zeroStream [0xC2, 1, 2] (StructOf ''T'' ?S) = Inl (TagError ''T'' (Name (?flds ! j)) [] (msg_must_be_optional (Name (?flds ! i))))"
    by blast
  from ij(1,2) have "i = 0 \<and> j = 1" by simp
  with ij show ?thesis by simp
qed

end
